(* ===== verification/Prelude.thy ===== *)
theory Prelude
  imports Main "HOL-Library.Word"
begin

text \<open>
  Shared vocabulary of the development: the Go error values the repository builds and
  inspects (\<open>errors.Is\<close>, \<open>errors.As\<close>, \<open>errors.Join\<close>, \<open>fmt.Errorf\<close> with \<open>%w\<close>), panics
  and the sequencing of code that may panic (\<open>defer\<close>, \<open>recover\<close>), runs of labelled step
  functions with the invariant principle used by the concurrent components, and the
  collections of simplification rules the component theories extend.
\<close>

section \<open>Rule collections\<close>

named_theorems proc_simps \<open>evaluation of sequenced code that may panic\<close>
named_theorems err_simps \<open>inspection of error values\<close>
named_theorems grows_intros \<open>code that only extends the trace and never turns the clock back\<close>
named_theorems trace_simps \<open>projections of the trace of observable calls\<close>

section \<open>Panics\<close>

text \<open>
  A panic carries a value. \<open>RuntimeError\<close> stands for the panics the Go runtime raises
  itself (nil function call, nil dereference, failed type assertion, \<open>reflect\<close> on an invalid
  value); \<open>PanicStr\<close> for \<open>panic("...")\<close>; \<open>PanicUser\<close> for any value application code panics with.
\<close>

datatype panic_value = PanicStr string | RuntimeError string | PanicUser nat

datatype 'a outcome = Returned 'a | Panicked panic_value

type_synonym ('s, 'a) proc = "'s \<Rightarrow> 'a outcome \<times> 's"

definition retP :: "'a \<Rightarrow> ('s, 'a) proc" where
  "retP a = (\<lambda>w. (Returned a, w))"

definition panicP :: "panic_value \<Rightarrow> ('s, 'a) proc" where
  "panicP p = (\<lambda>w. (Panicked p, w))"

definition bindP :: "('s, 'a) proc \<Rightarrow> ('a \<Rightarrow> ('s, 'b) proc) \<Rightarrow> ('s, 'b) proc" where
  "bindP m k = (\<lambda>w. case m w of (Returned a, w') \<Rightarrow> k a w' | (Panicked p, w') \<Rightarrow> (Panicked p, w'))"

definition thenP :: "('s, unit) proc \<Rightarrow> ('s, 'b) proc \<Rightarrow> ('s, 'b) proc" where
  "thenP m k = bindP m (\<lambda>_. k)"

definition getP :: "('s \<Rightarrow> 'a) \<Rightarrow> ('s, 'a) proc" where
  "getP f = (\<lambda>w. (Returned (f w), w))"

text \<open>
  \<open>deferP body d\<close> is \<open>defer d\<close> around \<open>body\<close>: the deferred code runs on a normal return and on a
  panic; a panic of the deferred code replaces the outcome.
\<close>

definition deferP :: "('s, 'a) proc \<Rightarrow> ('s, unit) proc \<Rightarrow> ('s, 'a) proc" where
  "deferP body d = (\<lambda>w. case body w of (r, w') \<Rightarrow>
     (case d w' of (Returned _, w'') \<Rightarrow> (r, w'') | (Panicked p, w'') \<Rightarrow> (Panicked p, w'')))"

text \<open>
  \<open>recoverP body h\<close> is a deferred \<open>if rec := recover(); rec != nil { h(rec) }\<close> around \<open>body\<close>.
\<close>

definition recoverP :: "('s, 'a) proc \<Rightarrow> (panic_value \<Rightarrow> ('s, 'a) proc) \<Rightarrow> ('s, 'a) proc" where
  "recoverP body h = (\<lambda>w. case body w of (Returned a, w') \<Rightarrow> (Returned a, w') | (Panicked p, w') \<Rightarrow> h p w')"

section \<open>Errors\<close>

text \<open>
  Error values. \<open>Canceled\<close> and \<open>DeadlineExceeded\<close> are the sentinels of package \<open>context\<close>;
  \<open>ErrMessageTooLarge\<close> and \<open>SBError\<close> are the errors of package \<open>azservicebus\<close> the repository
  inspects; \<open>WrapError\<close> is \<open>fmt.Errorf\<close> with one \<open>%w\<close> verb (the wrapped value may be nil);
  \<open>PanicError\<close> is the error \<open>Start\<close> builds from a recovered panic; \<open>NewError\<close> is an error with
  a text and nothing wrapped; \<open>OtherError\<close> is any other error of a dependency or of the application.
\<close>

datatype sb_code = CodeLockLost | CodeUnauthorizedAccess | CodeOther string

datatype err =
    Canceled
  | DeadlineExceeded
  | ErrMessageTooLarge
  | SBError sb_code
  | NewError string
  | OtherError nat
  | PanicError string panic_value
  | WrapError string "err option"
  | JoinError "err list"

text \<open>
  \<open>errors.Is(err, target)\<close> visits the error and, depth first, what it wraps; the target is given
  by the test that recognises it.
\<close>

fun errors_Is :: "(err \<Rightarrow> bool) \<Rightarrow> err \<Rightarrow> bool" where
  "errors_Is p (WrapError m (Some e)) = (p (WrapError m (Some e)) \<or> errors_Is p e)"
| "errors_Is p (JoinError es) = (p (JoinError es) \<or> (\<exists>e\<in>set es. errors_Is p e))"
| "errors_Is p e = p e"

abbreviation errors_Is_opt :: "(err \<Rightarrow> bool) \<Rightarrow> err option \<Rightarrow> bool" where
  "errors_Is_opt p oe \<equiv> (case oe of None \<Rightarrow> False | Some e \<Rightarrow> errors_Is p e)"

abbreviation is_canceled :: "err \<Rightarrow> bool" where
  "is_canceled e \<equiv> e = Canceled"

abbreviation is_deadline_exceeded :: "err \<Rightarrow> bool" where
  "is_deadline_exceeded e \<equiv> e = DeadlineExceeded"

abbreviation is_too_large :: "err \<Rightarrow> bool" where
  "is_too_large e \<equiv> e = ErrMessageTooLarge"

text \<open>
  \<open>errors.As(err, &sbErr)\<close> for \<open>*azservicebus.Error\<close>: the code of the first service bus error met
  in the same traversal.
\<close>

fun errors_As_SB :: "err \<Rightarrow> sb_code option"
and errors_As_SB_list :: "err list \<Rightarrow> sb_code option" where
  "errors_As_SB (SBError c) = Some c"
| "errors_As_SB (WrapError m (Some e)) = errors_As_SB e"
| "errors_As_SB (JoinError es) = errors_As_SB_list es"
| "errors_As_SB e = None"
| "errors_As_SB_list [] = None"
| "errors_As_SB_list (e # es) = (case errors_As_SB e of Some c \<Rightarrow> Some c | None \<Rightarrow> errors_As_SB_list es)"

text \<open>\<open>errors.Join\<close> drops nil errors and is nil when nothing is left.\<close>

definition errors_Join :: "err option list \<Rightarrow> err option" where
  "errors_Join os = (case List.map_filter (\<lambda>x. x) os of [] \<Rightarrow> None | es \<Rightarrow> Some (JoinError es))"

text \<open>The errors a nest of \<open>errors.Join\<close> combines, in order.\<close>

fun joined :: "err \<Rightarrow> err list" where
  "joined (JoinError es) = concat (map joined es)"
| "joined e = [e]"

section \<open>Runs of labelled step functions\<close>

text \<open>
  A concurrent component is a step function \<open>step a s\<close>: \<open>Some s'\<close> when action \<open>a\<close> (a thread taking
  its next step, or the environment answering) is enabled in \<open>s\<close>, \<open>None\<close> when it is not.
\<close>

fun run :: "('a \<Rightarrow> 's \<Rightarrow> 's option) \<Rightarrow> 'a list \<Rightarrow> 's \<Rightarrow> 's option" where
  "run step [] s = Some s"
| "run step (a # as) s = (case step a s of None \<Rightarrow> None | Some s' \<Rightarrow> run step as s')"

inductive reachable :: "('a \<Rightarrow> 's \<Rightarrow> 's option) \<Rightarrow> 's \<Rightarrow> 's \<Rightarrow> bool" for step s0 where
  reach_start: "reachable step s0 s0"
| reach_step: "reachable step s0 s \<Longrightarrow> step a s = Some s' \<Longrightarrow> reachable step s0 s'"

section \<open>Lemmas: counting in updated lists\<close>

lemma filter_nth_pos: "i < length xs \<Longrightarrow> P (xs ! i) \<Longrightarrow> Suc 0 \<le> length (filter P xs)"
  by (metis Suc_leI filter_empty_conv length_greater_0_conv nth_mem)

lemma filter_update_count_add:
  "i < length xs \<Longrightarrow> length (filter P (xs[i := y])) + (if P (xs ! i) then 1 else 0)
     = length (filter P xs) + (if P y then 1 else 0)"
proof (induction xs arbitrary: i)
  case (Cons x xs)
  then show ?case by (cases i) auto
qed simp

lemma filter_update_count:
  assumes "i < length xs"
  shows "length (filter P (xs[i := y])) =
     (if P (xs ! i) = P y then length (filter P xs)
      else if P y then Suc (length (filter P xs)) else length (filter P xs) - 1)"
  using filter_update_count_add [OF assms, of P y] filter_nth_pos [OF assms, of P] by (auto split: if_splits)

section \<open>Lemmas: sequenced code\<close>

lemma retP_apply [proc_simps]: "retP a w = (Returned a, w)"
  by (simp add: retP_def)

lemma panicP_apply [proc_simps]: "panicP p w = (Panicked p, w)"
  by (simp add: panicP_def)

lemma getP_apply [proc_simps]: "getP f w = (Returned (f w), w)"
  by (simp add: getP_def)

lemma bindP_returned [proc_simps]: "m w = (Returned a, w') \<Longrightarrow> bindP m k w = k a w'"
  by (simp add: bindP_def)

lemma bindP_panicked [proc_simps]: "m w = (Panicked p, w') \<Longrightarrow> bindP m k w = (Panicked p, w')"
  by (simp add: bindP_def)

lemma thenP_returned [proc_simps]: "m w = (Returned u, w') \<Longrightarrow> thenP m k w = k w'"
  by (simp add: thenP_def bindP_def)

lemma thenP_panicked [proc_simps]: "m w = (Panicked p, w') \<Longrightarrow> thenP m k w = (Panicked p, w')"
  by (simp add: thenP_def bindP_def)

lemma bindP_ret_left [simp]: "bindP (retP a) k = k a"
  by (simp add: bindP_def retP_def)

lemma bindP_ret_right [simp]: "bindP m retP = m"
  by (auto simp: bindP_def retP_def fun_eq_iff split: prod.splits outcome.splits)

lemma bindP_assoc: "bindP (bindP m k) l = bindP m (\<lambda>x. bindP (k x) l)"
  by (auto simp: bindP_def fun_eq_iff split: prod.splits outcome.splits)

lemma deferP_runs_always:
  assumes "d w' = (Returned u, w'')"
  shows "body w = (r, w') \<Longrightarrow> deferP body d w = (r, w'')"
  using assms by (simp add: deferP_def)

lemma recoverP_never_panics:
  assumes "\<And>p w. \<exists>a w'. h p w = (Returned a, w')"
  shows "\<exists>a w'. recoverP body h w = (Returned a, w')"
  using assms by (cases "body w") (auto simp: recoverP_def split: outcome.splits)

section \<open>Lemmas: errors\<close>

lemma errors_Is_wrap [err_simps]:
  "\<not> p (WrapError m (Some e)) \<Longrightarrow> errors_Is p (WrapError m (Some e)) = errors_Is p e"
  by simp

lemma errors_Join_snoc:
  "errors_Join [s, Some e] = Some (JoinError ((case s of None \<Rightarrow> [] | Some x \<Rightarrow> [x]) @ [e]))"
  by (cases s) (simp_all add: errors_Join_def List.map_filter_def)

lemma errors_Is_joined:
  assumes "\<And>es. \<not> p (JoinError es)"
  shows "errors_Is p e = (\<exists>x\<in>set (joined e). errors_Is p x)"
  using assms by (induction e rule: joined.induct) auto

lemma errors_As_SB_list_Some:
  "errors_As_SB_list es = Some c \<Longrightarrow> \<exists>e\<in>set es. errors_As_SB e = Some c"
  by (induction es) (auto split: option.splits)

section \<open>Lemmas: runs and reachability\<close>

lemma run_append: "run step (as @ bs) s = (case run step as s of None \<Rightarrow> None | Some t \<Rightarrow> run step bs t)"
  by (induction as arbitrary: s) (auto split: option.splits)

lemma reachable_run_from:
  "run step as s = Some t \<Longrightarrow> reachable step s0 s \<Longrightarrow> reachable step s0 t"
proof (induction as arbitrary: s)
  case Nil
  then show ?case by simp
next
  case (Cons a as)
  from Cons.prems obtain u where u: "step a s = Some u" "run step as u = Some t"
    by (auto split: option.splits)
  from Cons.prems(2) u(1) have "reachable step s0 u" by (rule reach_step)
  with u(2) show ?case by (rule Cons.IH)
qed

lemma run_reachable: "run step as s = Some t \<Longrightarrow> reachable step s t"
  by (rule reachable_run_from [OF _ reach_start])

lemma reachable_run: "reachable step s0 t \<Longrightarrow> \<exists>as. run step as s0 = Some t"
proof (induction rule: reachable.induct)
  case reach_start
  show ?case by (rule exI [of _ "[]"]) simp
next
  case (reach_step s a s')
  then obtain as where "run step as s0 = Some s" by blast
  with reach_step.hyps(2) have "run step (as @ [a]) s0 = Some s'"
    by (simp add: run_append)
  then show ?case by blast
qed

lemma reachable_trans: "reachable step s t \<Longrightarrow> reachable step t u \<Longrightarrow> reachable step s u"
  by (blast dest: reachable_run intro: reachable_run_from)

section \<open>The invariant principle\<close>

text \<open>
  What a component promises of its state: a predicate that its start state satisfies and every
  enabled step keeps. Each concurrent component interprets this locale on its own step function.
\<close>

locale step_invariant =
  fixes step :: "'a \<Rightarrow> 's \<Rightarrow> 's option"
    and start :: 's
    and inv :: "'s \<Rightarrow> bool"
  assumes inv_start: "inv start"
    and inv_step: "inv s \<Longrightarrow> step a s = Some s' \<Longrightarrow> inv s'"
begin

lemma inv_reachable: "reachable step start s \<Longrightarrow> inv s"
  by (induction rule: reachable.induct) (auto intro: inv_start inv_step)

lemma inv_run: "run step as s = Some t \<Longrightarrow> inv s \<Longrightarrow> inv t"
  by (induction as arbitrary: s) (auto split: option.splits dest: inv_step)

lemma inv_run_start: "run step as start = Some t \<Longrightarrow> inv t"
  by (rule inv_run) (auto intro: inv_start)

end

end
