(* ===== verification/Runtime.thy ===== *)
theory Runtime
  imports Prelude
begin

text \<open>
  The run-time model under the library: time, \<open>context.Context\<close>, the service bus message types as
  far as the repository reads and writes them, the calls the library makes to its environment
  (broker, application hooks, metrics, tracing, logging) and the world in which sequential code runs:
  a clock and the trace of those calls. Code outside the repository is a parameter: a \<open>settler\<close>
  answers settlement calls, \<open>app\<close> code is what the application supplies.
\<close>

section \<open>Time\<close>

text \<open>
  Instants and durations are nanoseconds. The code only compares durations and adds configured
  ones to the current time, so they are unbounded integers here; \<open>uint32\<close> values are 32-bit words.
\<close>

type_synonym instant = int
type_synonym duration = int

definition seconds :: "int \<Rightarrow> duration" where
  "seconds n = n * 1000000000"

section \<open>Contexts\<close>

text \<open>
  A context as the code that receives it can observe it: its deadline, the instant at which someone
  cancels it (if anyone ever does) and the trace span it carries. \<open>ctx.Err()\<close> is a function of the
  current time; a context that is both cancelled and past its deadline reports what came first.
\<close>

record Context =
  ctx_deadline :: "instant option"
  ctx_cancelled :: "instant option"
  ctx_span :: "nat option"

definition Background :: Context where
  "Background = \<lparr>ctx_deadline = None, ctx_cancelled = None, ctx_span = None\<rparr>"

definition min_opt :: "int option \<Rightarrow> int option \<Rightarrow> int option" where
  "min_opt a b = (case a of None \<Rightarrow> b | Some x \<Rightarrow> (case b of None \<Rightarrow> Some x | Some y \<Rightarrow> Some (min x y)))"

definition reached :: "instant option \<Rightarrow> instant \<Rightarrow> bool" where
  "reached a t = (case a of None \<Rightarrow> False | Some x \<Rightarrow> x \<le> t)"

definition ctx_done_at :: "Context \<Rightarrow> instant option" where
  "ctx_done_at c = min_opt (ctx_cancelled c) (ctx_deadline c)"

definition ctx_Err :: "Context \<Rightarrow> instant \<Rightarrow> err option" where
  "ctx_Err c t =
     (if \<not> reached (ctx_done_at c) t then None
      else if ctx_done_at c = ctx_cancelled c then Some Canceled
      else Some DeadlineExceeded)"

definition WithTimeout :: "Context \<Rightarrow> instant \<Rightarrow> duration \<Rightarrow> Context" where
  "WithTimeout c t d = c\<lparr>ctx_deadline := min_opt (ctx_deadline c) (Some (t + d))\<rparr>"

definition cancel_at :: "Context \<Rightarrow> instant \<Rightarrow> Context" where
  "cancel_at c t = c\<lparr>ctx_cancelled := min_opt (ctx_cancelled c) (Some t)\<rparr>"

section \<open>Messages\<close>

text \<open>
  An application property is a value of Go type \<open>any\<close>: a string, nil, or a value of another type
  (identified by a number). A nil property map is \<open>None\<close>.
\<close>

datatype prop_value = PStr string | PNil | POther nat

type_synonym properties = "(string \<rightharpoonup> prop_value) option"

record ReceivedMessage =
  MessageID :: string
  CorrelationID :: "string option"
  DeliveryCount :: "32 word"
  LockedUntil :: "instant option"
  ScheduledEnqueueTime :: "instant option"
  TimeToLive :: "duration option"
  ApplicationProperties :: properties

text \<open>Options of the client library that the code passes on unread are identified by a number.\<close>

type_synonym opaque = nat

text \<open>
  \<open>DeadLetterOptions\<close>: the description is the text of an error, so the model keeps the error
  whose \<open>Error()\<close> it is.
\<close>

record DeadLetterOptions =
  Reason :: "string option"
  ErrorDescription :: "err option"
  PropertiesToModify :: "opaque option"

section \<open>Calls to the environment\<close>

text \<open>The methods of \<open>MessageSettler\<close>, with the context they are called with.\<close>

datatype settle_call =
    AbandonMessage Context ReceivedMessage "opaque option"
  | CompleteMessage Context ReceivedMessage "opaque option"
  | DeadLetterMessage Context ReceivedMessage "DeadLetterOptions option"
  | DeferMessage Context ReceivedMessage "opaque option"
  | RenewMessageLock Context ReceivedMessage "opaque option"

text \<open>The methods of the processor's metrics \<open>Recorder\<close>.\<close>

datatype recorder_call =
    IncMessageDeadlineReachedCount ReceivedMessage
  | IncMessageLockRenewedFailure ReceivedMessage
  | IncMessageLockRenewedSuccess ReceivedMessage
  | IncMessageLockRenewalTimeoutCount ReceivedMessage
  | IncMessageHandled ReceivedMessage
  | IncMessageReceived nat
  | IncHealthCheckSuccessCount string string string
  | IncHealthCheckFailureCount string string string
  | IncConcurrentMessageCount ReceivedMessage
  | DecConcurrentMessageCount ReceivedMessage

text \<open>A log line is its format and arguments; rendering them is left to the logger.\<close>

datatype log_level = LInfo | LWarn | LError

datatype log_arg = AStr string | AErr err | APanic panic_value | ADur duration | ATime "instant option" | AInt int

datatype hook_call =
    OnCompletedCall ReceivedMessage
  | OnAbandonedCall ReceivedMessage err
  | OnDeadLetteredCall ReceivedMessage err

datatype span_call =
    SpanStart string "(string \<times> log_arg) list" "nat list"
  | SpanEnd
  | SpanAddEvent string "log_arg list"
  | SpanRecordError err

datatype event =
    EvSettle settle_call "err option"
  | EvMetric recorder_call
  | EvHook hook_call
  | EvLog log_level string "log_arg list"
  | EvTab log_level string "log_arg list"
  | EvSpan span_call
  | EvSleep duration
  | EvApp string

record world =
  now :: instant
  events :: "event list"

text \<open>
  The settlement side of the broker: the answer to a call, and how long the call takes, may depend
  on everything that happened before.
\<close>

type_synonym settler = "settle_call \<Rightarrow> world \<Rightarrow> err option \<times> nat"

type_synonym handler = "Context \<Rightarrow> settler \<Rightarrow> ReceivedMessage \<Rightarrow> (world, unit) proc"

text \<open>
  Application code that is not handed the settler: it may look at the world, take time, do
  things of its own (recorded as \<open>EvApp\<close>) and return or panic.
\<close>

type_synonym 'a app = "world \<Rightarrow> 'a outcome \<times> string list \<times> nat"

definition emit :: "event \<Rightarrow> (world, unit) proc" where
  "emit e = (\<lambda>w. (Returned (), w\<lparr>events := events w @ [e]\<rparr>))"

definition call_settler :: "settler \<Rightarrow> settle_call \<Rightarrow> (world, err option) proc" where
  "call_settler S c = (\<lambda>w. case S c w of (r, d) \<Rightarrow>
     (Returned r, w\<lparr>now := now w + int d, events := events w @ [EvSettle c r]\<rparr>))"

definition run_app :: "'a app \<Rightarrow> (world, 'a) proc" where
  "run_app a = (\<lambda>w. case a w of (r, es, d) \<Rightarrow>
     (r, w\<lparr>now := now w + int d, events := events w @ map EvApp es\<rparr>))"

text \<open>\<open>time.Sleep\<close> returns at once for a duration that is not positive.\<close>

definition sleep :: "duration \<Rightarrow> (world, unit) proc" where
  "sleep d = (\<lambda>w. (Returned (), w\<lparr>now := now w + max 0 d, events := events w @ [EvSleep d]\<rparr>))"

section \<open>Projections of the trace\<close>

fun settle_of :: "event \<Rightarrow> settle_call option" where
  "settle_of (EvSettle c r) = Some c"
| "settle_of _ = None"

fun hook_of :: "event \<Rightarrow> hook_call option" where
  "hook_of (EvHook h) = Some h"
| "hook_of _ = None"

fun metric_of :: "event \<Rightarrow> recorder_call option" where
  "metric_of (EvMetric m) = Some m"
| "metric_of _ = None"

definition settlements :: "event list \<Rightarrow> settle_call list" where
  "settlements es = List.map_filter settle_of es"

definition hooks :: "event list \<Rightarrow> hook_call list" where
  "hooks es = List.map_filter hook_of es"

definition metrics :: "event list \<Rightarrow> recorder_call list" where
  "metrics es = List.map_filter metric_of es"

text \<open>Settlement calls (with the broker's answer) and hook calls, in the order they happen.\<close>

definition decisions :: "event list \<Rightarrow> event list" where
  "decisions es = filter (\<lambda>e. settle_of e \<noteq> None \<or> hook_of e \<noteq> None) es"

text \<open>Calls that decide the fate of a message, as opposed to renewing its lock.\<close>

fun is_final :: "settle_call \<Rightarrow> bool" where
  "is_final (RenewMessageLock c m opts) = False"
| "is_final _ = True"

fun call_ctx :: "settle_call \<Rightarrow> Context" where
  "call_ctx (AbandonMessage c m opts) = c"
| "call_ctx (CompleteMessage c m opts) = c"
| "call_ctx (DeadLetterMessage c m dopts) = c"
| "call_ctx (DeferMessage c m opts) = c"
| "call_ctx (RenewMessageLock c m opts) = c"

text \<open>
  What every piece of sequential code does to the world: it appends to the trace and lets time
  pass, whether it returns or panics.
\<close>

definition grows :: "(world, 'a) proc \<Rightarrow> bool" where
  "grows m = (\<forall>w. (\<exists>es. events (snd (m w)) = events w @ es) \<and> now w \<le> now (snd (m w)))"

section \<open>Concrete values for the witnesses\<close>

text \<open>A message as a broker would deliver it for the second time, and a broker that accepts every call.\<close>

definition sample_message :: ReceivedMessage where
  "sample_message = \<lparr>MessageID = ''id-1'', CorrelationID = None, DeliveryCount = 2, LockedUntil = Some (seconds 60),
     ScheduledEnqueueTime = None, TimeToLive = None, ApplicationProperties = None\<rparr>"

definition accepting_settler :: settler where
  "accepting_settler = (\<lambda>_ _. (None, 0))"

definition start_world :: world where
  "start_world = \<lparr>now = 0, events = []\<rparr>"

section \<open>Lemmas: contexts\<close>

lemma min_opt_None [simp]: "min_opt None b = b" "min_opt a None = a"
  by (auto simp: min_opt_def split: option.splits)

lemma min_opt_Some [simp]: "min_opt (Some x) (Some y) = Some (min x y)"
  by (simp add: min_opt_def)

lemma reached_mono: "reached a t \<Longrightarrow> t \<le> t' \<Longrightarrow> reached a t'"
  by (auto simp: reached_def split: option.splits)

lemma reached_min_opt [simp]: "reached (min_opt a b) t \<longleftrightarrow> reached a t \<or> reached b t"
  by (auto simp: reached_def min_opt_def split: option.splits)

lemma ctx_Err_stable:
  assumes "ctx_Err c t = Some e" and "t \<le> t'"
  shows "ctx_Err c t' = Some e"
  using assms by (auto simp: ctx_Err_def dest: reached_mono split: if_splits)

lemma ctx_Err_cases: "ctx_Err c t = Some e \<Longrightarrow> e = Canceled \<or> e = DeadlineExceeded"
  by (auto simp: ctx_Err_def split: if_splits)

lemma ctx_Err_None_iff: "ctx_Err c t = None \<longleftrightarrow> \<not> reached (ctx_done_at c) t"
  by (auto simp: ctx_Err_def)

lemma WithTimeout_Background [simp]:
  "WithTimeout Background t d = \<lparr>ctx_deadline = Some (t + d), ctx_cancelled = None, ctx_span = None\<rparr>"
  by (simp add: WithTimeout_def Background_def)

lemma WithTimeout_deadline:
  "\<exists>d'. ctx_deadline (WithTimeout c t d) = Some d' \<and> d' \<le> t + d
     \<and> (\<forall>p. ctx_deadline c = Some p \<longrightarrow> d' \<le> p)"
  by (cases "ctx_deadline c") (auto simp: WithTimeout_def)

lemma WithTimeout_done: "ctx_Err c t' \<noteq> None \<Longrightarrow> ctx_Err (WithTimeout c t d) t' \<noteq> None"
  by (auto simp: ctx_Err_None_iff ctx_done_at_def WithTimeout_def)

lemma ctx_done_at_WithTimeout: "ctx_done_at (WithTimeout c t d) = min_opt (ctx_done_at c) (Some (t + d))"
  by (auto simp: ctx_done_at_def WithTimeout_def min_opt_def split: option.splits)

lemma WithTimeout_cancelled [simp]: "ctx_cancelled (WithTimeout c t d) = ctx_cancelled c"
  by (simp add: WithTimeout_def)

lemma ctx_span_WithTimeout [simp]: "ctx_span (WithTimeout c t d) = ctx_span c"
  by (simp add: WithTimeout_def)

section \<open>Lemmas: the trace\<close>

lemma emit_apply [proc_simps]: "emit e w = (Returned (), w\<lparr>events := events w @ [e]\<rparr>)"
  by (simp add: emit_def)

lemma sleep_apply [proc_simps]:
  "sleep d w = (Returned (), w\<lparr>now := now w + max 0 d, events := events w @ [EvSleep d]\<rparr>)"
  by (simp add: sleep_def)

lemma settlements_simps [trace_simps, simp]:
  "settlements [] = []"
  "settlements (xs @ ys) = settlements xs @ settlements ys"
  "settlements (EvSettle c r # es) = c # settlements es"
  "settlements (EvMetric m # es) = settlements es"
  "settlements (EvHook h # es) = settlements es"
  "settlements (EvLog l f as # es) = settlements es"
  "settlements (EvTab l f as # es) = settlements es"
  "settlements (EvSpan sp # es) = settlements es"
  "settlements (EvSleep d # es) = settlements es"
  "settlements (EvApp a # es) = settlements es"
  by (simp_all add: settlements_def List.map_filter_def)

lemma hooks_simps [trace_simps, simp]:
  "hooks [] = []"
  "hooks (xs @ ys) = hooks xs @ hooks ys"
  "hooks (EvSettle c r # es) = hooks es"
  "hooks (EvMetric m # es) = hooks es"
  "hooks (EvHook h # es) = h # hooks es"
  "hooks (EvLog l f as # es) = hooks es"
  "hooks (EvTab l f as # es) = hooks es"
  "hooks (EvSpan sp # es) = hooks es"
  "hooks (EvSleep d # es) = hooks es"
  "hooks (EvApp a # es) = hooks es"
  by (simp_all add: hooks_def List.map_filter_def)

lemma metrics_simps [trace_simps, simp]:
  "metrics [] = []"
  "metrics (xs @ ys) = metrics xs @ metrics ys"
  "metrics (EvSettle c r # es) = metrics es"
  "metrics (EvMetric m # es) = m # metrics es"
  "metrics (EvHook h # es) = metrics es"
  "metrics (EvLog l f as # es) = metrics es"
  "metrics (EvTab l f as # es) = metrics es"
  "metrics (EvSpan sp # es) = metrics es"
  "metrics (EvSleep d # es) = metrics es"
  "metrics (EvApp a # es) = metrics es"
  by (simp_all add: metrics_def List.map_filter_def)

lemma decisions_simps [trace_simps, simp]:
  "decisions [] = []"
  "decisions (xs @ ys) = decisions xs @ decisions ys"
  "decisions (EvSettle c r # es) = EvSettle c r # decisions es"
  "decisions (EvMetric m # es) = decisions es"
  "decisions (EvHook h # es) = EvHook h # decisions es"
  "decisions (EvLog l f as # es) = decisions es"
  "decisions (EvTab l f as # es) = decisions es"
  "decisions (EvSpan sp # es) = decisions es"
  "decisions (EvSleep d # es) = decisions es"
  "decisions (EvApp a # es) = decisions es"
  by (simp_all add: decisions_def)

lemma app_events_silent [simp]:
  "settlements (map EvApp es) = []" "hooks (map EvApp es) = []" "metrics (map EvApp es) = []"
  "decisions (map EvApp es) = []"
  by (induction es) simp_all

lemma settlements_decisions: "settlements (decisions es) = settlements es"
proof (induction es)
  case (Cons e es)
  then show ?case by (cases e) simp_all
qed simp

lemma hooks_decisions: "hooks (decisions es) = hooks es"
proof (induction es)
  case (Cons e es)
  then show ?case by (cases e) simp_all
qed simp

lemma decisions_eq_projections:
  assumes "decisions es = decisions es' @ ds"
  shows "settlements es = settlements es' @ settlements ds" and "hooks es = hooks es' @ hooks ds"
  using assms by (metis settlements_decisions settlements_simps(2), metis hooks_decisions hooks_simps(2))

section \<open>Lemmas: code that extends the trace\<close>

lemma call_settler_apply [proc_simps]:
  "call_settler S c w =
     (Returned (fst (S c w)), w\<lparr>now := now w + int (snd (S c w)), events := events w @ [EvSettle c (fst (S c w))]\<rparr>)"
  by (simp add: call_settler_def split: prod.splits)

lemma run_app_apply [proc_simps]:
  "run_app a w = (fst (a w),
     w\<lparr>now := now w + int (snd (snd (a w))), events := events w @ map EvApp (fst (snd (a w)))\<rparr>)"
  by (simp add: run_app_def split: prod.splits)

lemma growsD:
  assumes "grows m" and "m w = (r, w')"
  obtains es where "events w' = events w @ es" and "now w \<le> now w'"
  using assms unfolding grows_def by (metis snd_conv)

lemma grows_prims [grows_intros]:
  "grows (retP a)" "grows (panicP p)" "grows (getP f)" "grows (emit e)" "grows (sleep d)"
  "grows (call_settler S c)" "grows (run_app ap)"
  by (simp_all add: grows_def proc_simps)

lemma grows_bindP [grows_intros]:
  assumes "grows m" and "\<And>a. grows (k a)"
  shows "grows (bindP m k)"
  unfolding grows_def
proof
  fix w
  obtain r w1 where m: "m w = (r, w1)" by (cases "m w")
  with assms(1) obtain es where 1: "events w1 = events w @ es" "now w \<le> now w1"
    by (rule growsD)
  show "(\<exists>es. events (snd (bindP m k w)) = events w @ es) \<and> now w \<le> now (snd (bindP m k w))"
  proof (cases r)
    case (Returned a)
    obtain r2 w2 where k: "k a w1 = (r2, w2)" by (cases "k a w1")
    with assms(2) obtain es2 where "events w2 = events w1 @ es2" "now w1 \<le> now w2"
      by (rule growsD)
    with 1 k m Returned show ?thesis by (simp add: proc_simps)
  next
    case (Panicked p)
    with 1 m show ?thesis by (simp add: proc_simps)
  qed
qed

lemma grows_thenP [grows_intros]: "grows m \<Longrightarrow> grows k \<Longrightarrow> grows (thenP m k)"
  unfolding thenP_def by (rule grows_bindP)

lemma grows_if [grows_intros]: "(b \<Longrightarrow> grows m) \<Longrightarrow> (\<not> b \<Longrightarrow> grows k) \<Longrightarrow> grows (if b then m else k)"
  by simp

lemma grows_case_option [grows_intros]:
  "(x = None \<Longrightarrow> grows m) \<Longrightarrow> (\<And>a. x = Some a \<Longrightarrow> grows (k a)) \<Longrightarrow> grows (case x of None \<Rightarrow> m | Some a \<Rightarrow> k a)"
  by (cases x) simp_all

lemma grows_recoverP [grows_intros]:
  assumes "grows m" and "\<And>p. grows (h p)"
  shows "grows (recoverP m h)"
  unfolding grows_def
proof
  fix w
  obtain r w1 where m: "m w = (r, w1)" by (cases "m w")
  with assms(1) obtain es where 1: "events w1 = events w @ es" "now w \<le> now w1"
    by (rule growsD)
  show "(\<exists>es. events (snd (recoverP m h w)) = events w @ es) \<and> now w \<le> now (snd (recoverP m h w))"
  proof (cases r)
    case (Returned a)
    with 1 m show ?thesis by (simp add: recoverP_def)
  next
    case (Panicked p)
    obtain r2 w2 where h: "h p w1 = (r2, w2)" by (cases "h p w1")
    with assms(2) obtain es2 where "events w2 = events w1 @ es2" "now w1 \<le> now w2"
      by (rule growsD)
    with 1 h m Panicked show ?thesis by (simp add: recoverP_def)
  qed
qed

lemma grows_deferP [grows_intros]:
  assumes "grows m" and "grows d"
  shows "grows (deferP m d)"
  unfolding grows_def
proof
  fix w
  obtain r w1 where m: "m w = (r, w1)" by (cases "m w")
  with assms(1) obtain es where 1: "events w1 = events w @ es" "now w \<le> now w1"
    by (rule growsD)
  obtain r2 w2 where d: "d w1 = (r2, w2)" by (cases "d w1")
  with assms(2) obtain es2 where "events w2 = events w1 @ es2" "now w1 \<le> now w2"
    by (rule growsD)
  with 1 m d show "(\<exists>es. events (snd (deferP m d w)) = events w @ es) \<and> now w \<le> now (snd (deferP m d w))"
    by (cases r2) (simp_all add: deferP_def)
qed

end
