(* ===== verification/Handlers.thy ===== *)
theory Handlers
  imports Runtime
begin

text \<open>
  The \<open>Handler\<close> interface of \<^verbatim>\<open>v2/processor.go\<close> and the contracts handlers are held to:
  settling a message at most once, and containing panics. The panic-recovering middleware
  \<open>NewPanicHandler\<close> turns the first contract into the second.
\<close>

section \<open>The panic handler\<close>

type_synonym on_panic = "Context \<Rightarrow> settler \<Rightarrow> ReceivedMessage \<Rightarrow> panic_value \<Rightarrow> (world, unit) proc"

record PanicHandlerOptions =
  OnPanicRecovered :: "on_panic option"

definition default_PanicHandlerOptions :: PanicHandlerOptions where
  "default_PanicHandlerOptions =
     \<lparr>OnPanicRecovered = Some (\<lambda>ctx settler message recovered. emit (EvLog LError ''panic recovered: %v'' [APanic recovered]))\<rparr>"

definition nil_pointer_panic :: panic_value where
  "nil_pointer_panic = RuntimeError ''invalid memory address or nil pointer dereference''"

text \<open>Options that are given but leave the function nil make the deferred call panic itself.\<close>

definition NewPanicHandler :: "PanicHandlerOptions option \<Rightarrow> handler \<Rightarrow> handler" where
  "NewPanicHandler panicOptions hdl =
     (let options = (case panicOptions of None \<Rightarrow> default_PanicHandlerOptions | Some p \<Rightarrow> p) in
      (\<lambda>ctx settler message.
         recoverP (hdl ctx settler message)
           (\<lambda>rec. case OnPanicRecovered options of
                None \<Rightarrow> panicP nil_pointer_panic
              | Some f \<Rightarrow> f ctx settler message rec)))"

section \<open>Handler contracts\<close>

text \<open>
  A settling handler only extends the trace and, in one invocation, makes at most one call that
  decides the fate of a message, on every path including panics.
\<close>

locale settling_handler =
  fixes h :: handler
  assumes handler_grows: "grows (h ctx S m)"
    and settles_at_most_once: "h ctx S m w = (r, w') \<Longrightarrow>
      \<exists>cs. settlements (events w') = settlements (events w) @ cs \<and> length (filter is_final cs) \<le> 1"
begin

lemma new_settlements:
  assumes "h ctx S m w = (r, w')"
  obtains es where "events w' = events w @ es" "now w \<le> now w'" "length (filter is_final (settlements es)) \<le> 1"
proof -
  from handler_grows assms obtain es where es: "events w' = events w @ es" "now w \<le> now w'"
    by (rule growsD)
  from settles_at_most_once [OF assms] es(1) have "length (filter is_final (settlements es)) \<le> 1"
    by auto
  with es show ?thesis by (rule that)
qed

text \<open>The default panic handler adds a log line to what the handler did, and nothing else.\<close>

lemma panic_handler_settling: "settling_handler (NewPanicHandler None h)"
proof
  fix ctx S m
  show "grows (NewPanicHandler None h ctx S m)"
    by (simp add: NewPanicHandler_def default_PanicHandlerOptions_def grows_recoverP handler_grows grows_prims)
next
  fix ctx S m w r w'
  assume run: "NewPanicHandler None h ctx S m w = (r, w')"
  obtain r1 w1 where h: "h ctx S m w = (r1, w1)" by (cases "h ctx S m w")
  have "settlements (events w') = settlements (events w1)"
    using run h by (cases r1) (auto simp: NewPanicHandler_def default_PanicHandlerOptions_def recoverP_def proc_simps)
  with settles_at_most_once [OF h]
  show "\<exists>cs. settlements (events w') = settlements (events w) @ cs \<and> length (filter is_final cs) \<le> 1"
    by simp
qed

end

text \<open>A contained handler also never lets a panic out; the processor's goroutines rely on it.\<close>

locale contained_handler = settling_handler +
  assumes never_panics: "\<exists>w'. h ctx S m w = (Returned (), w')"

lemma panic_handler_returns: "\<exists>w'. NewPanicHandler None h ctx S m w = (Returned (), w')"
proof -
  have "\<exists>a w'. recoverP (h ctx S m) (\<lambda>rec. emit (EvLog LError ''panic recovered: %v'' [APanic rec])) w = (Returned a, w')"
    by (rule recoverP_never_panics) (simp add: proc_simps)
  then show ?thesis by (simp add: NewPanicHandler_def default_PanicHandlerOptions_def)
qed

context settling_handler
begin

lemma panic_handler_contained: "contained_handler (NewPanicHandler None h)"
proof (intro contained_handler.intro contained_handler_axioms.intro)
  show "settling_handler (NewPanicHandler None h)" by (rule panic_handler_settling)
  show "\<And>ctx S m w. \<exists>w'. NewPanicHandler None h ctx S m w = (Returned (), w')"
    by (rule panic_handler_returns)
qed

end

end
