(* ===== verification/Settlement.thy ===== *)
theory Settlement
  imports Handlers
begin

text \<open>
  \<^verbatim>\<open>v2/settlehandler.go\<close>: the settlements a handler can return, the shared \<open>settle\<close> routine
  with its 30 second budget, and the middleware \<open>NewSettlementHandler\<close> that turns a returned
  settlement into one call on the message settler.
\<close>

section \<open>The settle routine\<close>

definition settlementTimeout :: duration where
  "settlementTimeout = seconds 30"

record 'o settlement =
  settle_name :: string
  settleFunc :: "Context \<Rightarrow> settler \<Rightarrow> ReceivedMessage \<Rightarrow> 'o \<Rightarrow> (world, err option) proc"

definition settle :: "'o settlement \<Rightarrow> Context \<Rightarrow> settler \<Rightarrow> ReceivedMessage \<Rightarrow> 'o \<Rightarrow> (world, unit) proc" where
  "settle s ctx settler message options =
     thenP (emit (EvTab LInfo ''%s message'' [AStr (settle_name s)]))
    (bindP (getP (\<lambda>w. WithTimeout ctx (now w) settlementTimeout)) (\<lambda>settleCtx.
     thenP (emit (EvLog LInfo ''%s message with ID: %s'' [AStr (settle_name s), AStr (MessageID message)]))
    (bindP (settleFunc s settleCtx settler message options) (\<lambda>err.
     case err of
       None \<Rightarrow> retP ()
     | Some e \<Rightarrow>
         thenP (emit (EvLog LError ''%s settlement failed: %w'' [AStr (settle_name s), AErr e]))
               (emit (EvTab LError ''%s settlement failed: %w'' [AStr (settle_name s), AErr e]))))))"

definition abandonSettlement :: "opaque option settlement" where
  "abandonSettlement = \<lparr>settle_name = ''abandon'',
     settleFunc = (\<lambda>ctx settler message options. call_settler settler (AbandonMessage ctx message options))\<rparr>"

definition completeSettlement :: "opaque option settlement" where
  "completeSettlement = \<lparr>settle_name = ''complete'',
     settleFunc = (\<lambda>ctx settler message options. call_settler settler (CompleteMessage ctx message options))\<rparr>"

definition deferSettlement :: "opaque option settlement" where
  "deferSettlement = \<lparr>settle_name = ''defer'',
     settleFunc = (\<lambda>ctx settler message options. call_settler settler (DeferMessage ctx message options))\<rparr>"

definition deadLetterSettlement :: "DeadLetterOptions option settlement" where
  "deadLetterSettlement = \<lparr>settle_name = ''dead letter'',
     settleFunc = (\<lambda>ctx settler message options. call_settler settler (DeadLetterMessage ctx message options))\<rparr>"

section \<open>Settlements\<close>

text \<open>
  The implementations of the interface \<open>Settlement\<close>; \<open>UserSettlement\<close> is one the application
  brings. A nil \<open>Settlement\<close> is \<open>None\<close> of type \<open>Settlement option\<close>.
\<close>

datatype Settlement =
    Abandon "opaque option"
  | Complete "opaque option"
  | DeadLetter "DeadLetterOptions option"
  | Defer "opaque option"
  | NoOp
  | UserSettlement handler

fun Settle :: "Settlement \<Rightarrow> Context \<Rightarrow> settler \<Rightarrow> ReceivedMessage \<Rightarrow> (world, unit) proc" where
  "Settle (Abandon opts) ctx settler message = settle abandonSettlement ctx settler message opts"
| "Settle (Complete opts) ctx settler message = settle completeSettlement ctx settler message opts"
| "Settle (DeadLetter dopts) ctx settler message = settle deadLetterSettlement ctx settler message dopts"
| "Settle (Defer opts) ctx settler message = settle deferSettlement ctx settler message opts"
| "Settle NoOp ctx settler message =
     thenP (emit (EvLog LWarn ''no op settlement. message lock is locked until: %s'' [ATime (LockedUntil message)]))
           (emit (EvTab LInfo ''no op settlement. message lock is not released'' []))"
| "Settle (UserSettlement f) ctx settler message = f ctx settler message"

section \<open>The settlement handler\<close>

text \<open>
  \<open>SettlementHandlerOptions\<close>: the function field may itself be nil. Calling a nil function and
  calling a method on a nil interface are runtime panics.
\<close>

record SettlementHandlerOptions =
  OnNilSettlement :: "Settlement option app option"

definition nil_settlement_panic :: panic_value where
  "nil_settlement_panic = PanicStr ''you must return a settlement from the message handler or override the OnNilSettlement option to handle nil Settlement''"

definition default_SettlementHandlerOptions :: SettlementHandlerOptions where
  "default_SettlementHandlerOptions =
     \<lparr>OnNilSettlement = Some (\<lambda>w. (Panicked nil_settlement_panic, [], 0))\<rparr>"

definition NewSettlementHandler ::
  "SettlementHandlerOptions option \<Rightarrow> (Context \<Rightarrow> ReceivedMessage \<Rightarrow> Settlement option app) \<Rightarrow> handler" where
  "NewSettlementHandler opts hdl =
     (let options = (case opts of
            None \<Rightarrow> default_SettlementHandlerOptions
          | Some o' \<Rightarrow> default_SettlementHandlerOptions\<lparr>OnNilSettlement := OnNilSettlement o'\<rparr>)
      in (\<lambda>ctx settler message.
        bindP (run_app (hdl ctx message)) (\<lambda>s.
        bindP (case s of
                 Some x \<Rightarrow> retP (Some x)
               | None \<Rightarrow> (case OnNilSettlement options of
                     None \<Rightarrow> panicP nil_pointer_panic
                   | Some f \<Rightarrow> run_app f)) (\<lambda>s'.
        case s' of
          None \<Rightarrow> panicP nil_pointer_panic
        | Some x \<Rightarrow> Settle x ctx settler message))))"

section \<open>What settle does\<close>

text \<open>
  The call a built-in settlement stands for, with the context it receives when it starts at
  instant \<open>t\<close>.
\<close>

fun settlement_call :: "Settlement \<Rightarrow> Context \<Rightarrow> instant \<Rightarrow> ReceivedMessage \<Rightarrow> settle_call list" where
  "settlement_call (Abandon opts) ctx t m = [AbandonMessage (WithTimeout ctx t settlementTimeout) m opts]"
| "settlement_call (Complete opts) ctx t m = [CompleteMessage (WithTimeout ctx t settlementTimeout) m opts]"
| "settlement_call (DeadLetter dopts) ctx t m = [DeadLetterMessage (WithTimeout ctx t settlementTimeout) m dopts]"
| "settlement_call (Defer opts) ctx t m = [DeferMessage (WithTimeout ctx t settlementTimeout) m opts]"
| "settlement_call _ ctx t m = []"

fun builtin :: "Settlement \<Rightarrow> bool" where
  "builtin (UserSettlement f) = False"
| "builtin _ = True"

lemmas settlement_defs =
  abandonSettlement_def completeSettlement_def deferSettlement_def deadLetterSettlement_def

text \<open>
  One settlement call, whatever the broker answers: \<open>settle\<close> returns normally, and no other call
  reaches the settler or a hook. The shape is the same for the four settlements, so it is proved
  once for a settle function that makes the call \<open>mk ctx\<close>.
\<close>

lemma settle_one_call:
  assumes "settleFunc s = (\<lambda>ctx S m opts. call_settler S (mk ctx m opts))"
  shows "\<exists>r w'. settle s ctx S m opts w = (Returned (), w')
     \<and> decisions (events w') = decisions (events w) @ [EvSettle (mk (WithTimeout ctx (now w) settlementTimeout) m opts) r]
     \<and> metrics (events w') = metrics (events w) \<and> now w \<le> now w'"
  using assms by (auto simp: settle_def proc_simps split: option.splits)

lemma settle_cases:
  assumes "settleFunc s = (\<lambda>ctx S m opts. call_settler S (mk ctx m opts))"
  obtains r w' where "settle s ctx S m opts w = (Returned (), w')"
    "decisions (events w') = decisions (events w) @ [EvSettle (mk (WithTimeout ctx (now w) settlementTimeout) m opts) r]"
    "metrics (events w') = metrics (events w)" "now w \<le> now w'"
  using settle_one_call [OF assms] by blast

lemma settleFunc_simps [simp]:
  "settleFunc abandonSettlement = (\<lambda>ctx S m opts. call_settler S (AbandonMessage ctx m opts))"
  "settleFunc completeSettlement = (\<lambda>ctx S m opts. call_settler S (CompleteMessage ctx m opts))"
  "settleFunc deferSettlement = (\<lambda>ctx S m opts. call_settler S (DeferMessage ctx m opts))"
  "settleFunc deadLetterSettlement = (\<lambda>ctx S m dopts. call_settler S (DeadLetterMessage ctx m dopts))"
  by (simp_all add: settlement_defs)

lemma Settle_builtin:
  assumes "builtin st"
  shows "\<exists>rs w'. Settle st ctx S m w = (Returned (), w')
     \<and> length rs = length (settlement_call st ctx (now w) m)
     \<and> decisions (events w') = decisions (events w) @ map2 EvSettle (settlement_call st ctx (now w) m) rs
     \<and> metrics (events w') = metrics (events w) \<and> now w \<le> now w'"
proof (cases st)
  case (Abandon opts)
  obtain r w' where "settle abandonSettlement ctx S m opts w = (Returned (), w')"
    "decisions (events w') = decisions (events w) @ [EvSettle (AbandonMessage (WithTimeout ctx (now w) settlementTimeout) m opts) r]"
    "metrics (events w') = metrics (events w)" "now w \<le> now w'"
    by (rule settle_cases [OF settleFunc_simps(1)])
  then show ?thesis by (intro exI [of _ "[r]"] exI [of _ w']) (simp add: Abandon)
next
  case (Complete opts)
  obtain r w' where "settle completeSettlement ctx S m opts w = (Returned (), w')"
    "decisions (events w') = decisions (events w) @ [EvSettle (CompleteMessage (WithTimeout ctx (now w) settlementTimeout) m opts) r]"
    "metrics (events w') = metrics (events w)" "now w \<le> now w'"
    by (rule settle_cases [OF settleFunc_simps(2)])
  then show ?thesis by (intro exI [of _ "[r]"] exI [of _ w']) (simp add: Complete)
next
  case (DeadLetter opts)
  obtain r w' where "settle deadLetterSettlement ctx S m opts w = (Returned (), w')"
    "decisions (events w') = decisions (events w) @ [EvSettle (DeadLetterMessage (WithTimeout ctx (now w) settlementTimeout) m opts) r]"
    "metrics (events w') = metrics (events w)" "now w \<le> now w'"
    by (rule settle_cases [OF settleFunc_simps(4)])
  then show ?thesis by (intro exI [of _ "[r]"] exI [of _ w']) (simp add: DeadLetter)
next
  case (Defer opts)
  obtain r w' where "settle deferSettlement ctx S m opts w = (Returned (), w')"
    "decisions (events w') = decisions (events w) @ [EvSettle (DeferMessage (WithTimeout ctx (now w) settlementTimeout) m opts) r]"
    "metrics (events w') = metrics (events w)" "now w \<le> now w'"
    by (rule settle_cases [OF settleFunc_simps(3)])
  then show ?thesis by (intro exI [of _ "[r]"] exI [of _ w']) (simp add: Defer)
next
  case NoOp
  then show ?thesis by (simp add: proc_simps)
next
  case (UserSettlement f)
  with assms show ?thesis by simp
qed

lemma settlement_call_budget:
  assumes "c \<in> set (settlement_call st ctx t m)"
  shows "is_final c \<and> (\<exists>d. ctx_deadline (call_ctx c) = Some d \<and> d \<le> t + settlementTimeout
           \<and> (\<forall>p. ctx_deadline ctx = Some p \<longrightarrow> d \<le> p))"
  using assms WithTimeout_deadline [of ctx t settlementTimeout]
  by (cases st) auto

lemma settlement_call_once: "length (settlement_call st ctx t m) \<le> 1"
  by (cases st) simp_all

lemma settlement_handler_some:
  assumes "hdl ctx m w = (Returned (Some st), es, d)"
  shows "NewSettlementHandler opts hdl ctx S m w =
     Settle st ctx S m (w\<lparr>now := now w + int d, events := events w @ map EvApp es\<rparr>)"
  using assms by (simp add: NewSettlementHandler_def Let_def proc_simps)

lemma settlement_handler_none:
  assumes "hdl ctx m w = (Returned None, es, d)"
  shows "NewSettlementHandler None hdl ctx S m w =
           (Panicked nil_settlement_panic, w\<lparr>now := now w + int d, events := events w @ map EvApp es\<rparr>)"
    and "NewSettlementHandler (Some \<lparr>OnNilSettlement = None\<rparr>) hdl ctx S m w =
           (Panicked nil_pointer_panic, w\<lparr>now := now w + int d, events := events w @ map EvApp es\<rparr>)"
    and "NewSettlementHandler (Some \<lparr>OnNilSettlement = Some f\<rparr>) hdl ctx S m w =
           bindP (run_app f) (\<lambda>s. case s of None \<Rightarrow> panicP nil_pointer_panic | Some st \<Rightarrow> Settle st ctx S m)
             (w\<lparr>now := now w + int d, events := events w @ map EvApp es\<rparr>)"
  using assms by (simp_all add: NewSettlementHandler_def Let_def default_SettlementHandlerOptions_def proc_simps)

section \<open>The handler contract\<close>

lemma Settle_builtin_grows: "builtin st \<Longrightarrow> grows (Settle st ctx S m)"
  by (cases st) (auto simp: settle_def settlement_defs intro!: grows_intros)

lemma Settle_builtin_once:
  assumes "builtin st" and "Settle st ctx S m w = (r, w')"
  shows "\<exists>cs. settlements (events w') = settlements (events w) @ cs \<and> length (filter is_final cs) \<le> 1"
proof -
  let ?cs = "settlement_call st ctx (now w) m"
  obtain rs where rs: "length rs = length ?cs" "decisions (events w') = decisions (events w) @ map2 EvSettle ?cs rs"
    using Settle_builtin [OF assms(1), of ctx S m w] assms(2) by auto
  have "settlements (map2 EvSettle ?cs rs) = ?cs"
    using rs(1) by (cases st; cases rs) auto
  with decisions_eq_projections(1) [OF rs(2)] have "settlements (events w') = settlements (events w) @ ?cs"
    by simp
  moreover have "length (filter is_final ?cs) \<le> 1"
    by (rule order_trans [OF length_filter_le settlement_call_once])
  ultimately show ?thesis by blast
qed

text \<open>
  Application code that returns built-in settlements only, with the options left to their default:
  \<open>builtin_only hdl\<close> is \<open>hdl\<close> itself for such code.
\<close>

definition builtin_only ::
  "(Context \<Rightarrow> ReceivedMessage \<Rightarrow> Settlement option app) \<Rightarrow> Context \<Rightarrow> ReceivedMessage \<Rightarrow> Settlement option app" where
  "builtin_only hdl = (\<lambda>ctx m w. case hdl ctx m w of
      (Returned (Some st), es, d) \<Rightarrow> (Returned (Some (if builtin st then st else NoOp)), es, d)
    | (r, es, d) \<Rightarrow> (r, es, d))"

lemma builtin_only_id:
  assumes "\<And>ctx m w st es d. hdl ctx m w = (Returned (Some st), es, d) \<Longrightarrow> builtin st"
  shows "builtin_only hdl = hdl"
  using assms by (auto simp: builtin_only_def fun_eq_iff split: prod.splits outcome.splits option.splits)

lemma builtin_only_builtin:
  "builtin_only hdl ctx m w = (Returned (Some st), es, d) \<Longrightarrow> builtin st"
  by (auto simp: builtin_only_def split: prod.splits outcome.splits option.splits if_splits)

lemma settlement_handler_cases:
  obtains p w1 es where "NewSettlementHandler None (builtin_only hdl) ctx S m w = (Panicked p, w1)"
      "events w1 = events w @ map EvApp es" "now w \<le> now w1"
  | st w1 es where "NewSettlementHandler None (builtin_only hdl) ctx S m w = Settle st ctx S m w1" "builtin st"
      "events w1 = events w @ map EvApp es" "now w \<le> now w1"
proof (cases "builtin_only hdl ctx m w")
  case (fields r es d)
  let ?w1 = "w\<lparr>now := now w + int d, events := events w @ map EvApp es\<rparr>"
  consider p where "r = Panicked p" | "r = Returned None" | st where "r = Returned (Some st)"
    by (cases r) auto
  then show ?thesis
  proof cases
    case 1
    with fields have "NewSettlementHandler None (builtin_only hdl) ctx S m w = (Panicked p, ?w1)"
      by (simp add: NewSettlementHandler_def Let_def proc_simps)
    then show ?thesis by (rule that(1) [of p _ es]) simp_all
  next
    case 2
    with fields have "NewSettlementHandler None (builtin_only hdl) ctx S m w = (Panicked nil_settlement_panic, ?w1)"
      by (simp add: settlement_handler_none)
    then show ?thesis by (rule that(1) [of _ _ es]) simp_all
  next
    case (3 st)
    with fields have "NewSettlementHandler None (builtin_only hdl) ctx S m w = Settle st ctx S m ?w1" "builtin st"
      by (simp_all add: settlement_handler_some builtin_only_builtin)
    then show ?thesis by (rule that(2) [of st _ es]) simp_all
  qed
qed

interpretation settlement: settling_handler "NewSettlementHandler None (builtin_only hdl)" for hdl
proof unfold_locales
  fix ctx S m
  let ?h = "NewSettlementHandler None (builtin_only hdl) ctx S m"
  have "(\<exists>es. events (snd (?h w)) = events w @ es) \<and> now w \<le> now (snd (?h w))" for w
  proof (rule settlement_handler_cases [of hdl ctx S m w])
    fix st w1 es assume h: "?h w = Settle st ctx S m w1" "builtin st" "events w1 = events w @ map EvApp es" "now w \<le> now w1"
    obtain r w2 where r: "Settle st ctx S m w1 = (r, w2)" by (cases "Settle st ctx S m w1")
    obtain es' where "events w2 = events w1 @ es'" "now w1 \<le> now w2"
      using Settle_builtin_grows [OF h(2)] r by (rule growsD)
    with h r show ?thesis by simp
  qed simp
  then show "grows ?h" by (simp add: grows_def)
  fix w r w' assume run: "?h w = (r, w')"
  show "\<exists>cs. settlements (events w') = settlements (events w) @ cs \<and> length (filter is_final cs) \<le> 1"
  proof (rule settlement_handler_cases [of hdl ctx S m w])
    fix p w1 es assume "?h w = (Panicked p, w1)" "events w1 = events w @ map EvApp es"
    with run show ?thesis by simp
  next
    fix st w1 es assume "?h w = Settle st ctx S m w1" "builtin st" "events w1 = events w @ map EvApp es"
    with run Settle_builtin_once [of st ctx S m w1 r w'] show ?thesis by simp
  qed
qed

section \<open>Properties\<close>

text \<open>
  C38. When the application returns a built-in settlement, the settlement handler returns normally and
  makes exactly the call that settlement stands for (none for \<open>NoOp\<close>), no hook and nothing else on the
  settler, whatever the broker answers; the call's context expires within 30 seconds of its start and
  no later than the handler's own context.
\<close>

theorem settlement_handler_settles:
  assumes "hdl ctx m w = (Returned (Some st), es, d)" and "builtin st"
  shows "\<exists>rs w'. NewSettlementHandler opts hdl ctx S m w = (Returned (), w')
     \<and> length rs = length (settlement_call st ctx (now w + int d) m)
     \<and> decisions (events w') = decisions (events w) @ map2 EvSettle (settlement_call st ctx (now w + int d) m) rs
     \<and> (\<forall>c\<in>set (settlement_call st ctx (now w + int d) m).
          \<exists>t. ctx_deadline (call_ctx c) = Some t \<and> t \<le> now w + int d + settlementTimeout
            \<and> (\<forall>p. ctx_deadline ctx = Some p \<longrightarrow> t \<le> p))"
proof -
  let ?w1 = "w\<lparr>now := now w + int d, events := events w @ map EvApp es\<rparr>"
  have "\<exists>t. ctx_deadline (call_ctx c) = Some t \<and> t \<le> now w + int d + settlementTimeout
            \<and> (\<forall>p. ctx_deadline ctx = Some p \<longrightarrow> t \<le> p)"
    if "c \<in> set (settlement_call st ctx (now w + int d) m)" for c
    using settlement_call_budget [OF that] by blast
  with Settle_builtin [OF assms(2), of ctx S m ?w1] show ?thesis
    unfolding settlement_handler_some [where hdl = hdl, OF assms(1)] by auto
qed

theorem settlement_handler_settles_witness:
  "\<exists>rs w'. NewSettlementHandler None (\<lambda>_ _ _. (Returned (Some (Abandon None)), [], 7)) Background accepting_settler
       sample_message start_world = (Returned (), w')
     \<and> decisions (events w') = map2 EvSettle [AbandonMessage (WithTimeout Background 7 settlementTimeout) sample_message None] rs"
  using settlement_handler_settles [of "\<lambda>_ _ _. (Returned (Some (Abandon None)), [], 7)" Background sample_message
      start_world "Abandon None" "[]" 7 None accepting_settler]
  by (auto simp: start_world_def)

text \<open>
  C39. When the application returns a nil settlement, nothing is ever settled behind its back: without
  options the handler panics with the message that asks for a settlement; with options whose function
  is nil, or whose function returns nil as well, it panics with a nil dereference; only a settlement
  returned by the configured function is carried out. In the panicking cases the trace holds only
  what the application itself did.
\<close>

theorem settlement_handler_nil_settlement:
  assumes "hdl ctx m w = (Returned None, es, d)"
  shows "\<exists>w1. decisions (events w1) = decisions (events w)
     \<and> NewSettlementHandler None hdl ctx S m w = (Panicked nil_settlement_panic, w1)
     \<and> NewSettlementHandler (Some \<lparr>OnNilSettlement = None\<rparr>) hdl ctx S m w = (Panicked nil_pointer_panic, w1)
     \<and> (\<forall>f es' d'. f w1 = (Returned None, es', d') \<longrightarrow>
          (\<exists>w2. NewSettlementHandler (Some \<lparr>OnNilSettlement = Some f\<rparr>) hdl ctx S m w = (Panicked nil_pointer_panic, w2)
             \<and> decisions (events w2) = decisions (events w)))
     \<and> (\<forall>f st es' d'. f w1 = (Returned (Some st), es', d') \<longrightarrow>
          NewSettlementHandler (Some \<lparr>OnNilSettlement = Some f\<rparr>) hdl ctx S m w
            = Settle st ctx S m (w1\<lparr>now := now w1 + int d', events := events w1 @ map EvApp es'\<rparr>))"
  unfolding settlement_handler_none [where hdl = hdl, OF assms]
  by (intro exI [of _ "w\<lparr>now := now w + int d, events := events w @ map EvApp es\<rparr>"])
    (simp add: proc_simps)

theorem settlement_handler_nil_settlement_witness:
  "fst (NewSettlementHandler None (\<lambda>_ _ _. (Returned None, [], 0)) Background accepting_settler sample_message start_world)
     = Panicked nil_settlement_panic"
  using settlement_handler_nil_settlement [of "\<lambda>_ _ _. (Returned None, [], 0)" Background sample_message start_world
      "[]" 0 accepting_settler]
  by auto

end
