(* ===== verification/ManagedSettling.thy ===== *)
theory ManagedSettling
  imports Settlement
begin

text \<open>
  \<^verbatim>\<open>v2/managedsettling.go\<close> and \<^verbatim>\<open>v2/utils.go\<close>: the middleware that settles a message from
  the error its handler returns, its retry decision and delay strategy, the options with their
  defaults, and the built-in error handler.
\<close>

section \<open>Retry decision and delay\<close>

text \<open>
  The interfaces \<open>RetryDecision\<close> and \<open>RetryDelayStrategy\<close> have one method each; a value of the
  interface is that method.
\<close>

type_synonym RetryDecision = "err \<Rightarrow> ReceivedMessage \<Rightarrow> bool"
type_synonym RetryDelayStrategy = "32 word \<Rightarrow> duration"

record MaxAttemptsRetryDecision =
  MaxAttempts :: "32 word"

definition CanRetry :: "MaxAttemptsRetryDecision \<Rightarrow> RetryDecision" where
  "CanRetry d = (\<lambda>_ message. DeliveryCount message < MaxAttempts d)"

record ConstantDelayStrategy =
  Delay :: duration

definition GetDelay :: "ConstantDelayStrategy \<Rightarrow> RetryDelayStrategy" where
  "GetDelay s = (\<lambda>_. Delay s)"

section \<open>Options\<close>

text \<open>
  \<open>ManagedSettlingOptions\<close>. The \<open>OnError\<close> function is handed the options themselves, which HOL
  cannot type as a recursive record; it receives the other fields (\<open>SettlingConfig\<close>), which is what
  the options are passed for.
\<close>

record SettlingConfig =
  cfg_RetryDecision :: RetryDecision
  cfg_RetryDelayStrategy :: RetryDelayStrategy
  OnAbandoned :: "Context \<Rightarrow> ReceivedMessage \<Rightarrow> err \<Rightarrow> unit app"
  OnDeadLettered :: "Context \<Rightarrow> ReceivedMessage \<Rightarrow> err \<Rightarrow> unit app"
  OnCompleted :: "Context \<Rightarrow> ReceivedMessage \<Rightarrow> unit app"

type_synonym on_error = "SettlingConfig \<Rightarrow> Context \<Rightarrow> settler \<Rightarrow> ReceivedMessage \<Rightarrow> err option \<Rightarrow> (world, unit) proc"

record ManagedSettlingOptions =
  opt_config :: SettlingConfig
  OnError :: on_error

text \<open>The options a user passes: every field may be nil.\<close>

record UserSettlingOptions =
  user_OnError :: "on_error option"
  user_RetryDecision :: "RetryDecision option"
  user_RetryDelayStrategy :: "RetryDelayStrategy option"
  user_OnAbandoned :: "(Context \<Rightarrow> ReceivedMessage \<Rightarrow> err \<Rightarrow> unit app) option"
  user_OnDeadLettered :: "(Context \<Rightarrow> ReceivedMessage \<Rightarrow> err \<Rightarrow> unit app) option"
  user_OnCompleted :: "(Context \<Rightarrow> ReceivedMessage \<Rightarrow> unit app) option"

section \<open>The built-in error handler\<close>

definition dead_letter_options :: "err \<Rightarrow> DeadLetterOptions" where
  "dead_letter_options e = \<lparr>Reason = Some ''ManagedSettlingHandlerDeadLettering'',
     ErrorDescription = Some e, PropertiesToModify = None\<rparr>"

definition call_OnDeadLettered :: "SettlingConfig \<Rightarrow> Context \<Rightarrow> ReceivedMessage \<Rightarrow> err \<Rightarrow> (world, unit) proc" where
  "call_OnDeadLettered options ctx message e =
     thenP (emit (EvHook (OnDeadLetteredCall message e))) (run_app (OnDeadLettered options ctx message e))"

definition call_OnAbandoned :: "SettlingConfig \<Rightarrow> Context \<Rightarrow> ReceivedMessage \<Rightarrow> err \<Rightarrow> (world, unit) proc" where
  "call_OnAbandoned options ctx message e =
     thenP (emit (EvHook (OnAbandonedCall message e))) (run_app (OnAbandoned options ctx message e))"

definition call_OnCompleted :: "SettlingConfig \<Rightarrow> Context \<Rightarrow> ReceivedMessage \<Rightarrow> (world, unit) proc" where
  "call_OnCompleted options ctx message =
     thenP (emit (EvHook (OnCompletedCall message))) (run_app (OnCompleted options ctx message))"

definition handleError :: on_error where
  "handleError options ctx settler message handleErr =
     (let e = (case handleErr of None \<Rightarrow> WrapError ''nil error'' None | Some x \<Rightarrow> x) in
      if \<not> cfg_RetryDecision options e message then
        thenP (emit (EvLog LError ''moving message to dead letter queue because processing failed to an error: %s'' [AErr e]))
       (thenP (settle deadLetterSettlement ctx settler message (Some (dead_letter_options e)))
              (call_OnDeadLettered options ctx message e))
      else
        let delay = cfg_RetryDelayStrategy options (DeliveryCount message) in
        thenP (emit (EvLog LError ''delay strategy return delay of %s'' [ADur delay]))
       (thenP (sleep delay)
       (thenP (settle abandonSettlement ctx settler message None)
              (call_OnAbandoned options ctx message e))))"

definition defaultManagedSettlingOptions :: ManagedSettlingOptions where
  "defaultManagedSettlingOptions =
     \<lparr>opt_config =
        \<lparr>cfg_RetryDecision = CanRetry \<lparr>MaxAttempts = 5\<rparr>,
         cfg_RetryDelayStrategy = GetDelay \<lparr>Delay = seconds 5\<rparr>,
         OnAbandoned = (\<lambda>_ _ _ _. (Returned (), [], 0)),
         OnDeadLettered = (\<lambda>_ _ _ _. (Returned (), [], 0)),
         OnCompleted = (\<lambda>_ _ _. (Returned (), [], 0))\<rparr>,
      OnError = handleError\<rparr>"

section \<open>The middleware\<close>

type_synonym ManagedSettlingFunc = "Context \<Rightarrow> ReceivedMessage \<Rightarrow> err option app"

record ManagedSettler =
  ms_next :: ManagedSettlingFunc
  ms_options :: ManagedSettlingOptions

definition override :: "'a option \<Rightarrow> 'a \<Rightarrow> 'a" where
  "override o' d = (case o' of None \<Rightarrow> d | Some x \<Rightarrow> x)"

definition NewManagedSettlingHandler :: "UserSettlingOptions option \<Rightarrow> ManagedSettlingFunc \<Rightarrow> ManagedSettler" where
  "NewManagedSettlingHandler opts hdl =
     (let options = defaultManagedSettlingOptions; cfg = opt_config options in
      \<lparr>ms_next = hdl,
       ms_options = (case opts of
           None \<Rightarrow> options
         | Some u \<Rightarrow>
             \<lparr>opt_config =
                \<lparr>cfg_RetryDecision = override (user_RetryDecision u) (cfg_RetryDecision cfg),
                 cfg_RetryDelayStrategy = override (user_RetryDelayStrategy u) (cfg_RetryDelayStrategy cfg),
                 OnAbandoned = override (user_OnAbandoned u) (OnAbandoned cfg),
                 OnDeadLettered = override (user_OnDeadLettered u) (OnDeadLettered cfg),
                 OnCompleted = override (user_OnCompleted u) (OnCompleted cfg)\<rparr>,
              OnError = override (user_OnError u) (OnError options)\<rparr>)\<rparr>)"

definition ManagedSettler_Handle :: "ManagedSettler \<Rightarrow> handler" where
  "ManagedSettler_Handle m ctx settler message =
     bindP (run_app (ms_next m ctx message)) (\<lambda>err.
     case err of
       Some e \<Rightarrow>
         thenP (emit (EvLog LError ''error returned from the handler. Calling ManagedSettler error handler. error: %s'' [AErr e]))
               (OnError (ms_options m) (opt_config (ms_options m)) ctx settler message (Some e))
     | None \<Rightarrow>
         bindP (getP (\<lambda>w. WithTimeout ctx (now w) settlementTimeout)) (\<lambda>settleCtx.
         bindP (call_settler settler (CompleteMessage settleCtx message None)) (\<lambda>cerr.
         case cerr of
           Some e \<Rightarrow>
             thenP (emit (EvLog LError ''error completing message: %s'' [AErr e]))
                   (call_OnAbandoned (opt_config (ms_options m)) ctx message e)
         | None \<Rightarrow> call_OnCompleted (opt_config (ms_options m)) ctx message)))"

section \<open>What the middleware does\<close>

text \<open>
  The contract of the built-in error handling, as a function of the configuration, the message and
  the handler's error: which settlement the message gets and when its settlement context starts.
\<close>

definition error_call :: "SettlingConfig \<Rightarrow> Context \<Rightarrow> instant \<Rightarrow> ReceivedMessage \<Rightarrow> err \<Rightarrow> settle_call" where
  "error_call cfg ctx t message e =
     (if cfg_RetryDecision cfg e message
      then AbandonMessage (WithTimeout ctx t settlementTimeout) message None
      else DeadLetterMessage (WithTimeout ctx t settlementTimeout) message (Some (dead_letter_options e)))"

definition error_delay :: "SettlingConfig \<Rightarrow> ReceivedMessage \<Rightarrow> err \<Rightarrow> duration" where
  "error_delay cfg message e =
     (if cfg_RetryDecision cfg e message then max 0 (cfg_RetryDelayStrategy cfg (DeliveryCount message)) else 0)"

definition error_hook :: "SettlingConfig \<Rightarrow> ReceivedMessage \<Rightarrow> err \<Rightarrow> hook_call" where
  "error_hook cfg message e =
     (if cfg_RetryDecision cfg e message then OnAbandonedCall message e else OnDeadLetteredCall message e)"

fun managed_call :: "SettlingConfig \<Rightarrow> Context \<Rightarrow> instant \<Rightarrow> ReceivedMessage \<Rightarrow> err option \<Rightarrow> settle_call" where
  "managed_call cfg ctx t message None = CompleteMessage (WithTimeout ctx t settlementTimeout) message None"
| "managed_call cfg ctx t message (Some e) = error_call cfg ctx t message e"

fun managed_delay :: "SettlingConfig \<Rightarrow> ReceivedMessage \<Rightarrow> err option \<Rightarrow> duration" where
  "managed_delay cfg message None = 0"
| "managed_delay cfg message (Some e) = error_delay cfg message e"

text \<open>The hook depends on the handler's error and, after a success, on the broker's answer.\<close>

fun managed_hook :: "SettlingConfig \<Rightarrow> ReceivedMessage \<Rightarrow> err option \<Rightarrow> err option \<Rightarrow> hook_call" where
  "managed_hook cfg message None None = OnCompletedCall message"
| "managed_hook cfg message None (Some e) = OnAbandonedCall message e"
| "managed_hook cfg message (Some e) ans = error_hook cfg message e"

lemmas hook_defs = call_OnDeadLettered_def call_OnAbandoned_def call_OnCompleted_def

text \<open>
  Hooks are application code: after the hook event they add no decision, whether they return or
  panic.
\<close>

lemma call_hook_trace:
  obtains r w' where "thenP (emit (EvHook h)) (run_app a) w = (r, w')"
    "decisions (events w') = decisions (events w) @ [EvHook h]" "now w \<le> now w'"
  by (simp add: proc_simps)

text \<open>A settlement followed by its hook, the common tail of both branches of the error handler.\<close>

lemma settle_then_hook:
  assumes "settleFunc s = (\<lambda>ctx S m opts. call_settler S (mk ctx m opts))"
  obtains r ans w' where
    "thenP (settle s ctx S m opts) (thenP (emit (EvHook h)) (run_app a)) w = (r, w')"
    "decisions (events w') = decisions (events w)
       @ [EvSettle (mk (WithTimeout ctx (now w) settlementTimeout) m opts) ans, EvHook h]"
    "now w \<le> now w'"
proof -
  obtain ans w1 where w1: "settle s ctx S m opts w = (Returned (), w1)"
    "decisions (events w1) = decisions (events w) @ [EvSettle (mk (WithTimeout ctx (now w) settlementTimeout) m opts) ans]"
    "metrics (events w1) = metrics (events w)" "now w \<le> now w1"
    by (rule settle_cases [OF assms])
  obtain r w2 where "thenP (emit (EvHook h)) (run_app a) w1 = (r, w2)"
    "decisions (events w2) = decisions (events w1) @ [EvHook h]" "now w1 \<le> now w2"
    by (rule call_hook_trace)
  with w1 show ?thesis
    by (intro that [of r w2 ans]) (simp_all add: thenP_returned)
qed

lemma handleError_behaviour:
  "\<exists>r ans w'. handleError cfg ctx S m (Some e) w = (r, w')
     \<and> decisions (events w') = decisions (events w)
         @ [EvSettle (error_call cfg ctx (now w + error_delay cfg m e) m e) ans, EvHook (error_hook cfg m e)]
     \<and> now w + error_delay cfg m e \<le> now w'"
proof (cases "cfg_RetryDecision cfg e m")
  case True
  let ?d = "cfg_RetryDelayStrategy cfg (DeliveryCount m)"
  let ?w1 = "w\<lparr>now := now w + max 0 ?d,
     events := (events w @ [EvLog LError ''delay strategy return delay of %s'' [ADur ?d]]) @ [EvSleep ?d]\<rparr>"
  from True have eq: "handleError cfg ctx S m (Some e) w
     = thenP (settle abandonSettlement ctx S m None) (call_OnAbandoned cfg ctx m e) ?w1"
    by (simp add: handleError_def Let_def proc_simps)
  obtain r ans w' where
    "thenP (settle abandonSettlement ctx S m None) (call_OnAbandoned cfg ctx m e) ?w1 = (r, w')"
    "decisions (events w') = decisions (events ?w1)
       @ [EvSettle (AbandonMessage (WithTimeout ctx (now ?w1) settlementTimeout) m None) ans, EvHook (OnAbandonedCall m e)]"
    "now ?w1 \<le> now w'"
    unfolding call_OnAbandoned_def by (rule settle_then_hook [OF settleFunc_simps(1)])
  with True show ?thesis
    by (auto simp: eq error_call_def error_delay_def error_hook_def)
next
  case False
  let ?w1 = "w\<lparr>events := events w @ [EvLog LError
     ''moving message to dead letter queue because processing failed to an error: %s'' [AErr e]]\<rparr>"
  from False have eq: "handleError cfg ctx S m (Some e) w
     = thenP (settle deadLetterSettlement ctx S m (Some (dead_letter_options e))) (call_OnDeadLettered cfg ctx m e) ?w1"
    by (simp add: handleError_def Let_def proc_simps)
  obtain r ans w' where
    "thenP (settle deadLetterSettlement ctx S m (Some (dead_letter_options e))) (call_OnDeadLettered cfg ctx m e) ?w1 = (r, w')"
    "decisions (events w') = decisions (events ?w1)
       @ [EvSettle (DeadLetterMessage (WithTimeout ctx (now ?w1) settlementTimeout) m (Some (dead_letter_options e))) ans,
          EvHook (OnDeadLetteredCall m e)]"
    "now ?w1 \<le> now w'"
    unfolding call_OnDeadLettered_def by (rule settle_then_hook [OF settleFunc_simps(4)])
  with False show ?thesis
    by (auto simp: eq error_call_def error_delay_def error_hook_def)
qed

lemma handle_error_branch:
  assumes "OnError (ms_options ms) = handleError" and "ms_next ms ctx m w = (Returned (Some e), es, d)"
  shows "\<exists>r ans w'. ManagedSettler_Handle ms ctx S m w = (r, w')
     \<and> decisions (events w') = decisions (events w)
         @ [EvSettle (error_call (opt_config (ms_options ms)) ctx
              (now w + int d + error_delay (opt_config (ms_options ms)) m e) m e) ans,
            EvHook (error_hook (opt_config (ms_options ms)) m e)]"
proof -
  let ?w1 = "w\<lparr>now := now w + int d, events := (events w @ map EvApp es)
     @ [EvLog LError ''error returned from the handler. Calling ManagedSettler error handler. error: %s'' [AErr e]]\<rparr>"
  have "ManagedSettler_Handle ms ctx S m w = handleError (opt_config (ms_options ms)) ctx S m (Some e) ?w1"
    using assms by (simp add: ManagedSettler_Handle_def proc_simps)
  then show ?thesis
    using handleError_behaviour [of "opt_config (ms_options ms)" ctx S m e ?w1] by auto
qed

lemma handle_success_branch:
  assumes "ms_next ms ctx m w = (Returned None, es, d)"
  shows "\<exists>r ans w'. ManagedSettler_Handle ms ctx S m w = (r, w')
     \<and> decisions (events w') = decisions (events w)
         @ [EvSettle (CompleteMessage (WithTimeout ctx (now w + int d) settlementTimeout) m None) ans,
            EvHook (managed_hook (opt_config (ms_options ms)) m None ans)]"
  using assms by (auto simp: ManagedSettler_Handle_def hook_defs proc_simps split: option.splits)

lemma handle_panic_branch:
  assumes "ms_next ms ctx m w = (Panicked p, es, d)"
  shows "ManagedSettler_Handle ms ctx S m w =
     (Panicked p, w\<lparr>now := now w + int d, events := events w @ map EvApp es\<rparr>)"
  using assms by (simp add: ManagedSettler_Handle_def proc_simps)

lemma handleError_grows: "grows (handleError cfg ctx S m he)"
  by (auto simp: handleError_def Let_def settle_def hook_defs settlement_defs intro!: grows_intros)

lemma ManagedSettler_grows:
  assumes "OnError (ms_options ms) = handleError"
  shows "grows (ManagedSettler_Handle ms ctx S m)"
  unfolding ManagedSettler_Handle_def assms hook_defs
  by (intro grows_intros handleError_grows)

lemma managed_at_most_once:
  assumes on: "OnError (ms_options ms) = handleError" and run: "ManagedSettler_Handle ms ctx S m w = (r, w')"
  shows "\<exists>cs. settlements (events w') = settlements (events w) @ cs \<and> length (filter is_final cs) \<le> 1"
proof (cases "ms_next ms ctx m w")
  case (fields res es d)
  show ?thesis
  proof (cases res)
    case (Panicked p)
    with fields run show ?thesis by (auto simp: handle_panic_branch)
  next
    case (Returned oe)
    then obtain c ans h where "decisions (events w') = decisions (events w) @ [EvSettle c ans, EvHook h]"
      using handle_success_branch [of ms ctx m w es d S] handle_error_branch [OF on, of ctx m w _ es d S] fields run
      by (cases oe) fastforce+
    from decisions_eq_projections(1) [OF this] show ?thesis by simp
  qed
qed

section \<open>The middleware keeps the handler contract\<close>

interpretation managed: settling_handler
  "ManagedSettler_Handle \<lparr>ms_next = hdl, ms_options = \<lparr>opt_config = cfg, OnError = handleError\<rparr>\<rparr>" for hdl cfg
  by unfold_locales (simp add: ManagedSettler_grows, rule managed_at_most_once, simp_all)

interpretation managed_contained: contained_handler
  "NewPanicHandler None (ManagedSettler_Handle \<lparr>ms_next = hdl, ms_options = \<lparr>opt_config = cfg, OnError = handleError\<rparr>\<rparr>)"
  for hdl cfg
  by (rule managed.panic_handler_contained)

section \<open>Properties\<close>

text \<open>
  C2. With the built-in error handler, a message whose handler returns is settled exactly once and
  then exactly one hook runs, in that order and whatever the broker answers: complete when the handler
  returned nil; otherwise, after the retry delay, abandon when the retry decision allows a retry and
  dead-letter (with the handler's error as description) when it does not.
\<close>

theorem managed_settles_exactly_once:
  assumes "OnError (ms_options ms) = handleError"
    and "ms_next ms ctx m w = (Returned res, es, d)"
  shows "\<exists>r ans w'. ManagedSettler_Handle ms ctx S m w = (r, w')
     \<and> decisions (events w') = decisions (events w)
         @ [EvSettle (managed_call (opt_config (ms_options ms)) ctx
              (now w + int d + managed_delay (opt_config (ms_options ms)) m res) m res) ans,
            EvHook (managed_hook (opt_config (ms_options ms)) m res ans)]"
proof (cases res)
  case None
  with assms show ?thesis using handle_success_branch by simp
next
  case (Some e)
  with assms show ?thesis using handle_error_branch by simp
qed

theorem managed_settles_exactly_once_witness:
  "\<exists>r ans w'. ManagedSettler_Handle (NewManagedSettlingHandler None (\<lambda>_ _ _. (Returned (Some (OtherError 1)), [], 3)))
       Background accepting_settler sample_message start_world = (r, w')
     \<and> decisions (events w') =
         [EvSettle (AbandonMessage (WithTimeout Background (3 + seconds 5) settlementTimeout) sample_message None) ans,
          EvHook (OnAbandonedCall sample_message (OtherError 1))]"
  using managed_settles_exactly_once
    [of "NewManagedSettlingHandler None (\<lambda>_ _ _. (Returned (Some (OtherError 1)), [], 3))" Background sample_message
      start_world "Some (OtherError 1)" "[]" 3 accepting_settler]
  by (auto simp: NewManagedSettlingHandler_def defaultManagedSettlingOptions_def error_call_def error_delay_def
      error_hook_def CanRetry_def GetDelay_def sample_message_def start_world_def seconds_def)

end
