(* ===== verification/Processor.thy ===== *)
theory Processor
  imports ManagedSettling
begin

text \<open>
  \<^verbatim>\<open>v2/processor.go\<close>: the processor's options, its message pump (\<open>Start\<close>, \<open>startWithRetries\<close>,
  \<open>start\<close>) and the goroutines that \<open>process\<close> spawns, bounded by the channel \<open>concurrencyTokens\<close>.
  The pump and the goroutines run concurrently, so they are one step function over a shared state;
  an action names the thread that moves or the environment's answer (the receiver, the timers, the
  context, the handler). Log lines and metric calls are recorded in the trace of the state.
\<close>

section \<open>Options\<close>

record ProcessorOptions =
  MaxConcurrency :: int
  MaxReceiveCount :: int
  ReceiveInterval :: "duration option"
  StartMaxAttempt :: int
  StartRetryDelayStrategy :: "RetryDelayStrategy option"

definition applyProcessorOptions :: "ProcessorOptions option \<Rightarrow> ProcessorOptions" where
  "applyProcessorOptions options =
     (let opts = \<lparr>MaxConcurrency = 1, MaxReceiveCount = 1, ReceiveInterval = Some (seconds 1),
                  StartMaxAttempt = 1, StartRetryDelayStrategy = Some (GetDelay \<lparr>Delay = seconds 5\<rparr>)\<rparr>
      in case options of
        None \<Rightarrow> opts
      | Some o' \<Rightarrow>
         (let opts = (if ReceiveInterval o' \<noteq> None then opts\<lparr>ReceiveInterval := ReceiveInterval o'\<rparr> else opts);
              opts = (if MaxConcurrency o' > 0
                      then opts\<lparr>MaxConcurrency := MaxConcurrency o', MaxReceiveCount := MaxConcurrency o'\<rparr> else opts);
              opts = (if MaxReceiveCount o' > 0 \<and> MaxReceiveCount o' < MaxConcurrency opts
                      then opts\<lparr>MaxReceiveCount := MaxReceiveCount o'\<rparr> else opts);
              opts = (if StartMaxAttempt o' > 0 then opts\<lparr>StartMaxAttempt := StartMaxAttempt o'\<rparr> else opts)
          in if StartRetryDelayStrategy o' \<noteq> None
             then opts\<lparr>StartRetryDelayStrategy := StartRetryDelayStrategy o'\<rparr> else opts))"

section \<open>State\<close>

text \<open>
  Where the pump is. \<open>PAttempt\<close> is the loop test of \<open>startWithRetries\<close>; \<open>PInitRecv\<close> and \<open>PRecv n\<close> are
  the two \<open>ReceiveMessages\<close> calls of \<open>start\<close> in progress; \<open>PDispatch initial ms\<close> is the loop that calls
  \<open>process\<close> for each message, after the initial receive or within the receive loop; \<open>PLoop\<close> is the loop
  test \<open>ctx.Err() == nil\<close>; \<open>PSelect\<close> and \<open>PTick\<close> are the \<open>select\<close> and its timer branch; \<open>PStartRet\<close>
  is the return of \<open>start\<close>; \<open>PRetryWait\<close> the \<open>select\<close> between attempts; \<open>PFinished\<close> the return of \<open>Start\<close>.
\<close>

datatype pump_pc =
    PAttempt
  | PInitRecv
  | PDispatch bool "ReceivedMessage list"
  | PLoop
  | PSelect
  | PTick
  | PRecv int
  | PStartRet "err option"
  | PRetryWait
  | PFinished "err option"

text \<open>
  A handler goroutine: spawned, inside \<open>Handle\<close>, unwinding into the deferred function (with the
  panic, if the handler panicked), token given back, message counted as handled, finished.
\<close>

datatype gpc =
    GSpawned
  | GHandling
  | GUnwinding "panic_value option"
  | GReleased "panic_value option"
  | GCounted "panic_value option"
  | GDone "panic_value option"

text \<open>
  \<open>tokens\<close> is the number of elements in the buffered channel \<open>concurrencyTokens\<close>. \<open>requests\<close> and
  \<open>received\<close> record, for the statements, each \<open>ReceiveMessages\<close> call (whether it is the initial one
  of an attempt, how many messages it asks for, how many tokens were taken) and all messages received.
  \<open>crashed\<close> holds once a panic has left a handler goroutine, which ends the program.
\<close>

record pstate =
  pump :: pump_pc
  attempt :: nat
  savedError :: "err option"
  pctxErr :: "err option"
  tokens :: nat
  gos :: "(ReceivedMessage \<times> gpc) list"
  requests :: "(bool \<times> int \<times> nat) list"
  received :: "ReceivedMessage list"
  ptrace :: "event list"
  crashed :: bool

definition init_pstate :: pstate where
  "init_pstate = \<lparr>pump = PAttempt, attempt = 0, savedError = None, pctxErr = None, tokens = 0, gos = [],
     requests = [], received = [], ptrace = [], crashed = False\<rparr>"

text \<open>
  Actions: the pump's own next step; the receiver returning messages, an error, or panicking; the
  timers and the context branch of the two \<open>select\<close> statements; the context becoming done; the next
  step of goroutine \<open>i\<close>; the handler of goroutine \<open>i\<close> returning or panicking.
\<close>

datatype paction =
    Pump
  | RecvReturns "ReceivedMessage list"
  | RecvFails err
  | RecvPanics panic_value
  | Tick
  | CtxDone
  | RetryTimer
  | RetryCtxDone
  | CancelCtx err
  | Goroutine nat
  | HandlerReturns nat
  | HandlerPanics nat panic_value

section \<open>The pump\<close>

definition plog :: "log_level \<Rightarrow> string \<Rightarrow> log_arg list \<Rightarrow> pstate \<Rightarrow> pstate" where
  "plog l f as s = s\<lparr>ptrace := ptrace s @ [EvLog l f as]\<rparr>"

definition pmetric :: "recorder_call \<Rightarrow> pstate \<Rightarrow> pstate" where
  "pmetric m s = s\<lparr>ptrace := ptrace s @ [EvMetric m]\<rparr>"

definition request :: "bool \<Rightarrow> int \<Rightarrow> pstate \<Rightarrow> pstate" where
  "request initial n s = s\<lparr>requests := requests s @ [(initial, n, tokens s)]\<rparr>"

text \<open>\<open>process\<close>: take a token (blocking while the channel is full) and spawn the handler goroutine.\<close>

definition process :: "ProcessorOptions \<Rightarrow> ReceivedMessage \<Rightarrow> pstate \<Rightarrow> pstate option" where
  "process opts message s =
     (if tokens s < nat (MaxConcurrency opts)
      then Some (s\<lparr>tokens := tokens s + 1, gos := gos s @ [(message, GSpawned)]\<rparr>)
      else None)"

text \<open>The steps the pump takes on its own, in \<open>startWithRetries\<close> and \<open>start\<close>.\<close>

definition pump_step :: "ProcessorOptions \<Rightarrow> pstate \<Rightarrow> pstate option" where
  "pump_step opts s = (case pump s of
     PAttempt \<Rightarrow>
       (if int (attempt s) < StartMaxAttempt opts
        then Some (request True (MaxReceiveCount opts) (plog LInfo ''starting processor'' [] s)\<lparr>pump := PInitRecv\<rparr>)
        else Some (s\<lparr>pump := PFinished (savedError s)\<rparr>))
   | PDispatch initial [] \<Rightarrow> Some (s\<lparr>pump := PLoop\<rparr>)
   | PDispatch initial (m # ms) \<Rightarrow> map_option (\<lambda>s'. s'\<lparr>pump := PDispatch initial ms\<rparr>) (process opts m s)
   | PLoop \<Rightarrow>
       (if pctxErr s = None then Some (s\<lparr>pump := PSelect\<rparr>)
        else Some ((plog LInfo ''exiting processor'' [] s)\<lparr>pump := PStartRet (pctxErr s)\<rparr>))
   | PTick \<Rightarrow>
       (let maxMessages = min (MaxReceiveCount opts) (MaxConcurrency opts - int (tokens s)) in
        if pctxErr s \<noteq> None \<or> maxMessages = 0 then Some (s\<lparr>pump := PLoop\<rparr>)
        else Some ((request False maxMessages s)\<lparr>pump := PRecv maxMessages\<rparr>))
   | PStartRet None \<Rightarrow> Some (s\<lparr>pump := PAttempt, attempt := attempt s + 1\<rparr>)
   | PStartRet (Some e) \<Rightarrow>
       (let s' = plog LError ''processor start attempt %d failed: %w'' [AInt (int (attempt s)), AErr e]
                   (s\<lparr>savedError := errors_Join [savedError s, Some e]\<rparr>) in
        if int (attempt s) + 1 = StartMaxAttempt opts then Some (s'\<lparr>pump := PFinished (savedError s')\<rparr>)
        else Some (s'\<lparr>pump := PRetryWait\<rparr>))
   | _ \<Rightarrow> None)"

text \<open>The receiver's answer to the call in progress; a panic unwinds to the \<open>recover\<close> in \<open>Start\<close>.\<close>

definition recv_returns :: "ReceivedMessage list \<Rightarrow> pstate \<Rightarrow> pstate option" where
  "recv_returns ms s =
     (let count = (\<lambda>f s'. pmetric (IncMessageReceived (length ms)) (plog LInfo f [AInt (int (length ms))] s'));
          s' = s\<lparr>received := received s @ ms\<rparr> in
      case pump s of
        PInitRecv \<Rightarrow> Some ((count ''received %d messages - initial'' s')\<lparr>pump := PDispatch True ms\<rparr>)
      | PRecv n \<Rightarrow> Some ((count ''received %d messages from processor loop'' s')\<lparr>pump := PDispatch False ms\<rparr>)
      | _ \<Rightarrow> None)"

definition in_receive :: "pstate \<Rightarrow> bool" where
  "in_receive s = (case pump s of PInitRecv \<Rightarrow> True | PRecv n \<Rightarrow> True | _ \<Rightarrow> False)"

definition recv_fails :: "err \<Rightarrow> pstate \<Rightarrow> pstate option" where
  "recv_fails e s =
     (if in_receive s then Some (s\<lparr>pump := PStartRet (Some (WrapError ''failed to receive messages'' (Some e)))\<rparr>) else None)"

definition recv_panics :: "panic_value \<Rightarrow> pstate \<Rightarrow> pstate option" where
  "recv_panics p s =
     (if in_receive s then Some (s\<lparr>pump := PFinished (Some (PanicError ''panic recovered from processor'' p))\<rparr>) else None)"

text \<open>
  The wait between attempts: the timer runs for \<open>GetDelay(uint32(attempt))\<close>. A nil strategy would
  panic in the pump, which \<open>Start\<close> recovers.
\<close>

definition retry_timer :: "ProcessorOptions \<Rightarrow> pstate \<Rightarrow> pstate option" where
  "retry_timer opts s =
     (if pump s = PRetryWait then
        (case StartRetryDelayStrategy opts of
           None \<Rightarrow> Some (s\<lparr>pump := PFinished (Some (PanicError ''panic recovered from processor'' nil_pointer_panic))\<rparr>)
         | Some getDelay \<Rightarrow>
             Some (s\<lparr>ptrace := ptrace s @ [EvSleep (getDelay (of_nat (attempt s)))],
                     attempt := attempt s + 1, pump := PAttempt\<rparr>))
      else None)"

definition retry_ctx_done :: "ProcessorOptions \<Rightarrow> pstate \<Rightarrow> pstate option" where
  "retry_ctx_done opts s =
     (if pump s = PRetryWait \<and> pctxErr s \<noteq> None \<and> StartRetryDelayStrategy opts \<noteq> None
      then Some ((plog LInfo ''context done, stop retrying'' [] s)\<lparr>pump := PFinished (pctxErr s)\<rparr>) else None)"

section \<open>The handler goroutines\<close>

text \<open>
  The goroutine of \<open>process\<close>: count the message as in progress, run the handler, then in the deferred
  function give the token back, count the message as handled and no longer in progress.
\<close>

definition goroutine_step :: "nat \<Rightarrow> pstate \<Rightarrow> pstate option" where
  "goroutine_step i s =
     (if i < length (gos s) then
        (let m = fst (gos s ! i); move = (\<lambda>g s'. s'\<lparr>gos := (gos s')[i := (m, g)]\<rparr>) in
         case snd (gos s ! i) of
           GSpawned \<Rightarrow> Some (move GHandling (pmetric (IncConcurrentMessageCount m) s))
         | GUnwinding p \<Rightarrow> (if tokens s > 0 then Some (move (GReleased p) (s\<lparr>tokens := tokens s - 1\<rparr>)) else None)
         | GReleased p \<Rightarrow> Some (move (GCounted p) (pmetric (IncMessageHandled m) s))
         | GCounted p \<Rightarrow> Some (move (GDone p) (pmetric (DecConcurrentMessageCount m) (s\<lparr>crashed := (p \<noteq> None)\<rparr>)))
         | _ \<Rightarrow> None)
      else None)"

definition handler_ends :: "nat \<Rightarrow> panic_value option \<Rightarrow> pstate \<Rightarrow> pstate option" where
  "handler_ends i p s =
     (if i < length (gos s) \<and> snd (gos s ! i) = GHandling
      then Some (s\<lparr>gos := (gos s)[i := (fst (gos s ! i), GUnwinding p)]\<rparr>) else None)"

section \<open>The step function\<close>

definition pstep :: "ProcessorOptions \<Rightarrow> paction \<Rightarrow> pstate \<Rightarrow> pstate option" where
  "pstep opts a s =
     (if crashed s then None else
      case a of
        Pump \<Rightarrow> pump_step opts s
      | RecvReturns ms \<Rightarrow> recv_returns ms s
      | RecvFails e \<Rightarrow> recv_fails e s
      | RecvPanics p \<Rightarrow> recv_panics p s
      | Tick \<Rightarrow> (if pump s = PSelect then Some (s\<lparr>pump := PTick\<rparr>) else None)
      | CtxDone \<Rightarrow>
          (if pump s = PSelect \<and> pctxErr s \<noteq> None
           then Some ((plog LInfo ''context done, stop receiving from processor'' [] s)\<lparr>pump := PLoop\<rparr>) else None)
      | RetryTimer \<Rightarrow> retry_timer opts s
      | RetryCtxDone \<Rightarrow> retry_ctx_done opts s
      | CancelCtx e \<Rightarrow>
          (if pctxErr s = None \<and> (e = Canceled \<or> e = DeadlineExceeded) then Some (s\<lparr>pctxErr := Some e\<rparr>) else None)
      | Goroutine i \<Rightarrow> goroutine_step i s
      | HandlerReturns i \<Rightarrow> handler_ends i None s
      | HandlerPanics i p \<Rightarrow> handler_ends i (Some p) s)"

section \<open>Invariants\<close>

fun holds_token :: "gpc \<Rightarrow> bool" where
  "holds_token GSpawned = True"
| "holds_token GHandling = True"
| "holds_token (GUnwinding p) = True"
| "holds_token _ = False"

definition in_flight :: "pstate \<Rightarrow> nat" where
  "in_flight s = length (filter (\<lambda>g. holds_token (snd g)) (gos s))"

definition pending :: "pstate \<Rightarrow> ReceivedMessage list" where
  "pending s = (case pump s of PDispatch initial ms \<Rightarrow> ms | _ \<Rightarrow> [])"

definition token_inv :: "ProcessorOptions \<Rightarrow> pstate \<Rightarrow> bool" where
  "token_inv opts s = (tokens s = in_flight s \<and> tokens s \<le> nat (MaxConcurrency opts))"

definition flow_inv :: "pstate \<Rightarrow> bool" where
  "flow_inv s = (received s = map fst (gos s) @ pending s)"

definition request_ok :: "ProcessorOptions \<Rightarrow> bool \<times> int \<times> nat \<Rightarrow> bool" where
  "request_ok opts = (\<lambda>(initial, n, t).
     (initial \<longrightarrow> n = MaxReceiveCount opts)
     \<and> (\<not> initial \<longrightarrow> 0 < n \<and> n \<le> MaxReceiveCount opts \<and> n \<le> MaxConcurrency opts - int t))"

definition request_inv :: "ProcessorOptions \<Rightarrow> pstate \<Rightarrow> bool" where
  "request_inv opts s = (\<forall>r\<in>set (requests s). request_ok opts r)"

lemmas pump_defs = pump_step_def process_def plog_def pmetric_def request_def
lemmas recv_defs = recv_returns_def recv_fails_def recv_panics_def in_receive_def plog_def pmetric_def
lemmas retry_defs = retry_timer_def retry_ctx_done_def plog_def
lemmas go_defs = goroutine_step_def handler_ends_def pmetric_def

text \<open>Case analysis of a step: which of the component operations made it.\<close>

lemma pstep_cases:
  assumes "pstep opts a s = Some s'"
  obtains (pump) "pump_step opts s = Some s'" "a = Pump"
  | (returns) ms where "recv_returns ms s = Some s'" "a = RecvReturns ms"
  | (fails) e where "recv_fails e s = Some s'" "a = RecvFails e"
  | (panics) p where "recv_panics p s = Some s'" "a = RecvPanics p"
  | (tick) "pump s = PSelect" "s' = s\<lparr>pump := PTick\<rparr>" "a = Tick"
  | (ctxdone) "pump s = PSelect" "pctxErr s \<noteq> None" "a = CtxDone"
      "s' = (plog LInfo ''context done, stop receiving from processor'' [] s)\<lparr>pump := PLoop\<rparr>"
  | (timer) "retry_timer opts s = Some s'" "a = RetryTimer"
  | (giveup) "retry_ctx_done opts s = Some s'" "a = RetryCtxDone"
  | (cancel) e where "pctxErr s = None" "e = Canceled \<or> e = DeadlineExceeded" "s' = s\<lparr>pctxErr := Some e\<rparr>" "a = CancelCtx e"
  | (go) i where "goroutine_step i s = Some s'" "a = Goroutine i"
  | (ends) i p where "handler_ends i p s = Some s'"
proof (cases a)
  case Pump
  with assms show ?thesis by (intro that(1)) (auto simp: pstep_def split: if_splits)
next
  case (RecvReturns ms)
  with assms show ?thesis by (intro that(2)) (auto simp: pstep_def split: if_splits)
next
  case (RecvFails e)
  with assms show ?thesis by (intro that(3)) (auto simp: pstep_def split: if_splits)
next
  case (RecvPanics p)
  with assms show ?thesis by (intro that(4)) (auto simp: pstep_def split: if_splits)
next
  case Tick
  with assms show ?thesis by (intro that(5)) (auto simp: pstep_def split: if_splits)
next
  case CtxDone
  with assms show ?thesis by (intro that(6)) (auto simp: pstep_def split: if_splits)
next
  case RetryTimer
  with assms show ?thesis by (intro that(7)) (auto simp: pstep_def split: if_splits)
next
  case RetryCtxDone
  with assms show ?thesis by (intro that(8)) (auto simp: pstep_def split: if_splits)
next
  case (CancelCtx e)
  with assms show ?thesis by (intro that(9)) (auto simp: pstep_def split: if_splits)
next
  case (Goroutine i)
  with assms show ?thesis by (intro that(10)) (auto simp: pstep_def split: if_splits)
next
  case (HandlerReturns i)
  with assms show ?thesis by (intro that(11)) (auto simp: pstep_def split: if_splits)
next
  case (HandlerPanics i p)
  with assms show ?thesis by (intro that(11)) (auto simp: pstep_def split: if_splits)
qed

lemma pump_step_cases:
  assumes "pump_step opts s = Some s'"
  obtains (begin_attempt) "pump s = PAttempt" "int (attempt s) < StartMaxAttempt opts"
      "s' = s\<lparr>ptrace := ptrace s @ [EvLog LInfo ''starting processor'' []],
              requests := requests s @ [(True, MaxReceiveCount opts, tokens s)], pump := PInitRecv\<rparr>"
  | (no_attempt) "pump s = PAttempt" "\<not> int (attempt s) < StartMaxAttempt opts" "s' = s\<lparr>pump := PFinished (savedError s)\<rparr>"
  | (dispatched) initial where "pump s = PDispatch initial []" "s' = s\<lparr>pump := PLoop\<rparr>"
  | (spawn) initial m ms where "pump s = PDispatch initial (m # ms)" "tokens s < nat (MaxConcurrency opts)"
      "s' = s\<lparr>tokens := tokens s + 1, gos := gos s @ [(m, GSpawned)], pump := PDispatch initial ms\<rparr>"
  | (wait) "pump s = PLoop" "pctxErr s = None" "s' = s\<lparr>pump := PSelect\<rparr>"
  | (exit) e where "pump s = PLoop" "pctxErr s = Some e"
      "s' = s\<lparr>ptrace := ptrace s @ [EvLog LInfo ''exiting processor'' []], pump := PStartRet (Some e)\<rparr>"
  | (skip) "pump s = PTick" "s' = s\<lparr>pump := PLoop\<rparr>"
  | (receive) n where "pump s = PTick" "pctxErr s = None" "n \<noteq> 0"
      "n = min (MaxReceiveCount opts) (MaxConcurrency opts - int (tokens s))"
      "s' = s\<lparr>requests := requests s @ [(False, n, tokens s)], pump := PRecv n\<rparr>"
  | (start_nil) "pump s = PStartRet None" "s' = s\<lparr>pump := PAttempt, attempt := attempt s + 1\<rparr>"
  | (failed) e where "pump s = PStartRet (Some e)"
      "s' = s\<lparr>savedError := errors_Join [savedError s, Some e],
              ptrace := ptrace s @ [EvLog LError ''processor start attempt %d failed: %w'' [AInt (int (attempt s)), AErr e]],
              pump := (if int (attempt s) + 1 = StartMaxAttempt opts
                       then PFinished (errors_Join [savedError s, Some e]) else PRetryWait)\<rparr>"
proof (cases "pump s")
  case PAttempt
  then show ?thesis using assms that(1,2) by (auto simp: pump_defs split: if_splits)
next
  case (PDispatch initial ms)
  then show ?thesis using assms that(3,4) by (cases ms) (auto simp: pump_defs split: if_splits)
next
  case PLoop
  then show ?thesis using assms that(5,6) by (auto simp: pump_defs split: if_splits)
next
  case PTick
  then show ?thesis using assms that(7,8) by (auto simp: pump_defs Let_def split: if_splits)
next
  case (PStartRet r)
  then show ?thesis using assms that(9,10) by (cases r) (auto simp: pump_defs Let_def split: if_splits)
qed (use assms in \<open>simp_all add: pump_step_def\<close>)

text \<open>The receiver's answers: only a call in progress is answered.\<close>

lemma recv_returns_cases:
  assumes "recv_returns ms s = Some s'"
  obtains initial where "pump s = PInitRecv \<and> initial \<or> (\<exists>n. pump s = PRecv n) \<and> \<not> initial"
    "\<exists>f. s' = s\<lparr>received := received s @ ms,
       ptrace := ptrace s @ [EvLog LInfo f [AInt (int (length ms))], EvMetric (IncMessageReceived (length ms))],
       pump := PDispatch initial ms\<rparr>"
  using assms by (auto simp: recv_returns_def plog_def pmetric_def Let_def split: pump_pc.splits)

lemma in_receive_iff: "in_receive s \<longleftrightarrow> pump s = PInitRecv \<or> (\<exists>n. pump s = PRecv n)"
  by (auto simp: in_receive_def split: pump_pc.splits)

lemma token_inv_frame [simp]:
  "token_inv opts (s\<lparr>pump := x\<rparr>) = token_inv opts s"
  "token_inv opts (s\<lparr>pctxErr := e\<rparr>) = token_inv opts s"
  "token_inv opts (s\<lparr>ptrace := t\<rparr>) = token_inv opts s"
  by (simp_all add: token_inv_def in_flight_def)

lemma pump_step_token_inv: "pump_step opts s = Some s' \<Longrightarrow> token_inv opts s \<Longrightarrow> token_inv opts s'"
  by (cases rule: pump_step_cases) (auto simp: token_inv_def in_flight_def)

lemma goroutine_token_inv:
  assumes "goroutine_step i s = Some s'" and "token_inv opts s"
  shows "token_inv opts s'"
  using assms by (auto simp: go_defs token_inv_def in_flight_def Let_def filter_update_count
      intro: filter_nth_pos split: if_splits gpc.splits)

lemma handler_ends_token_inv:
  assumes "handler_ends i p s = Some s'" and "token_inv opts s"
  shows "token_inv opts s'"
  using assms by (auto simp: go_defs token_inv_def in_flight_def filter_update_count
      intro: filter_nth_pos split: if_splits)

lemma receive_token_inv:
  "recv_returns ms s = Some s' \<Longrightarrow> token_inv opts s \<Longrightarrow> token_inv opts s'"
  "recv_fails e s = Some s' \<Longrightarrow> token_inv opts s \<Longrightarrow> token_inv opts s'"
  "recv_panics p s = Some s' \<Longrightarrow> token_inv opts s \<Longrightarrow> token_inv opts s'"
  by (auto simp: recv_defs token_inv_def in_flight_def Let_def split: pump_pc.splits if_splits)

lemma retry_token_inv:
  "retry_timer opts s = Some s' \<Longrightarrow> token_inv opts s \<Longrightarrow> token_inv opts s'"
  "retry_ctx_done opts s = Some s' \<Longrightarrow> token_inv opts s \<Longrightarrow> token_inv opts s'"
  by (auto simp: retry_defs token_inv_def in_flight_def split: option.splits if_splits)

lemma pstep_token_inv:
  assumes "pstep opts a s = Some s'" and "token_inv opts s"
  shows "token_inv opts s'"
  using assms(1)
proof (cases rule: pstep_cases)
  case (go i)
  then show ?thesis using assms(2) by (blast intro: goroutine_token_inv)
next
  case (ends i p)
  then show ?thesis using assms(2) by (blast intro: handler_ends_token_inv)
qed (use assms(2) in \<open>auto intro: pump_step_token_inv receive_token_inv retry_token_inv simp: plog_def\<close>)

interpretation tokens: step_invariant "pstep opts" init_pstate "token_inv opts" for opts
  by unfold_locales (simp add: token_inv_def in_flight_def init_pstate_def, erule (1) pstep_token_inv)

subsection \<open>No message is lost or duplicated\<close>

lemma map_fst_update [simp]: "i < length xs \<Longrightarrow> map fst (xs[i := (fst (xs ! i), y)]) = map fst xs"
  by (metis fst_conv list_update_id map_update nth_map)

lemma flow_inv_frame [simp]:
  "flow_inv (s\<lparr>pctxErr := e\<rparr>) = flow_inv s"
  "flow_inv (s\<lparr>ptrace := t\<rparr>) = flow_inv s"
  by (simp_all add: flow_inv_def pending_def)

lemma pump_step_flow_inv: "pump_step opts s = Some s' \<Longrightarrow> flow_inv s \<Longrightarrow> flow_inv s'"
  by (cases rule: pump_step_cases) (auto simp: flow_inv_def pending_def)

lemma receive_flow_inv:
  "recv_returns ms s = Some s' \<Longrightarrow> flow_inv s \<Longrightarrow> flow_inv s'"
  "recv_fails e s = Some s' \<Longrightarrow> flow_inv s \<Longrightarrow> flow_inv s'"
  "recv_panics p s = Some s' \<Longrightarrow> flow_inv s \<Longrightarrow> flow_inv s'"
  by (auto simp: recv_defs flow_inv_def pending_def Let_def split: pump_pc.splits if_splits)

lemma retry_flow_inv:
  "retry_timer opts s = Some s' \<Longrightarrow> flow_inv s \<Longrightarrow> flow_inv s'"
  "retry_ctx_done opts s = Some s' \<Longrightarrow> flow_inv s \<Longrightarrow> flow_inv s'"
  by (auto simp: retry_defs flow_inv_def pending_def split: option.splits if_splits)

lemma go_flow_inv:
  "goroutine_step i s = Some s' \<Longrightarrow> flow_inv s \<Longrightarrow> flow_inv s'"
  "handler_ends i p s = Some s' \<Longrightarrow> flow_inv s \<Longrightarrow> flow_inv s'"
  by (auto simp: go_defs flow_inv_def pending_def Let_def split: gpc.splits if_splits)

lemma pstep_flow_inv:
  assumes "pstep opts a s = Some s'" and "flow_inv s"
  shows "flow_inv s'"
  using assms(1)
proof (cases rule: pstep_cases)
  case tick
  with assms(2) show ?thesis by (simp add: flow_inv_def pending_def)
next
  case ctxdone
  with assms(2) show ?thesis by (simp add: flow_inv_def pending_def plog_def)
qed (use assms(2) in \<open>auto intro: pump_step_flow_inv receive_flow_inv retry_flow_inv go_flow_inv\<close>)

interpretation flow: step_invariant "pstep opts" init_pstate flow_inv for opts
  by unfold_locales (simp add: flow_inv_def pending_def init_pstate_def, erule (1) pstep_flow_inv)

subsection \<open>Options and requests\<close>

text \<open>What \<open>applyProcessorOptions\<close> promises the pump.\<close>

definition valid_opts :: "ProcessorOptions \<Rightarrow> bool" where
  "valid_opts opts = (0 < MaxReceiveCount opts \<and> MaxReceiveCount opts \<le> MaxConcurrency opts
     \<and> 0 < StartMaxAttempt opts \<and> ReceiveInterval opts \<noteq> None \<and> StartRetryDelayStrategy opts \<noteq> None)"

lemma apply_valid: "valid_opts (applyProcessorOptions o')"
  by (simp add: valid_opts_def applyProcessorOptions_def Let_def split: option.split)

lemma pump_step_request_inv:
  assumes "pump_step opts s = Some s'" and "request_inv opts s" and "token_inv opts s" and "valid_opts opts"
  shows "request_inv opts s'"
  using assms(1)
proof (cases rule: pump_step_cases)
  case (receive n)
  with assms(2-4) show ?thesis
    by (auto simp: request_inv_def request_ok_def token_inv_def valid_opts_def)
qed (use assms(2) in \<open>auto simp: request_inv_def request_ok_def\<close>)

lemma other_request_inv:
  "recv_returns ms s = Some s' \<Longrightarrow> requests s' = requests s"
  "recv_fails e s = Some s' \<Longrightarrow> requests s' = requests s"
  "recv_panics p s = Some s' \<Longrightarrow> requests s' = requests s"
  "retry_timer opts s = Some s' \<Longrightarrow> requests s' = requests s"
  "retry_ctx_done opts s = Some s' \<Longrightarrow> requests s' = requests s"
  "goroutine_step i s = Some s' \<Longrightarrow> requests s' = requests s"
  "handler_ends i hp s = Some s' \<Longrightarrow> requests s' = requests s"
  by (auto simp: recv_defs retry_defs go_defs Let_def split: pump_pc.splits gpc.splits option.splits if_splits)

lemma pstep_request_inv:
  assumes "pstep opts a s = Some s'" and "request_inv opts s \<and> token_inv opts s" and "valid_opts opts"
  shows "request_inv opts s' \<and> token_inv opts s'"
proof
  show "token_inv opts s'" using assms by (blast intro: pstep_token_inv)
  show "request_inv opts s'" using assms(1)
  proof (cases rule: pstep_cases)
    case pump
    with assms(2,3) show ?thesis by (blast intro: pump_step_request_inv)
  qed (use assms(2) in \<open>auto simp: request_inv_def plog_def dest: other_request_inv\<close>)
qed

interpretation requests: step_invariant "pstep (applyProcessorOptions o')" init_pstate
  "\<lambda>s. request_inv (applyProcessorOptions o') s \<and> token_inv (applyProcessorOptions o') s" for o'
  by unfold_locales
    (simp add: request_inv_def token_inv_def in_flight_def init_pstate_def, rule pstep_request_inv, simp_all add: apply_valid)

end
