(* ===== verification/ProcessorRuns.thy ===== *)
theory ProcessorRuns
  imports Processor
begin

text \<open>
  Whole runs of the processor of \<^verbatim>\<open>v2/processor.go\<close>: what \<open>Start\<close> returns and how often it tries,
  that with a receiver that keeps to the requested count only the initial dispatch of a later start
  attempt can have to wait, that no reachable state is stuck, that the processor winds down once its context is done, that the metrics agree
  with the goroutines, and the refinement of a bounded worker pool.
\<close>

section \<open>What Start returns\<close>

fun attempt_error :: "err \<Rightarrow> bool" where
  "attempt_error Canceled = True"
| "attempt_error DeadlineExceeded = True"
| "attempt_error (WrapError f (Some e)) = (f = ''failed to receive messages'')"
| "attempt_error _ = False"

definition saved_errors :: "pstate \<Rightarrow> err list" where
  "saved_errors s = (case savedError s of None \<Rightarrow> [] | Some e \<Rightarrow> joined e)"

text \<open>The three ways out of \<open>Start\<close>: all attempts failed, the context ended the retries, a recovered panic.\<close>

definition start_result :: "ProcessorOptions \<Rightarrow> err option \<Rightarrow> err \<Rightarrow> bool" where
  "start_result opts ctxErr e \<longleftrightarrow>
     (int (length (joined e)) = StartMaxAttempt opts \<and> list_all attempt_error (joined e))
     \<or> ctxErr = Some e \<or> (\<exists>p. e = PanicError ''panic recovered from processor'' p)"

definition attempts_started :: "pstate \<Rightarrow> nat" where
  "attempts_started s = length (filter fst (requests s))"

text \<open>
  What is known at each point of the pump, in terms of the number of saved errors, the attempt
  number and the context's error.
\<close>

fun pc_ok :: "ProcessorOptions \<Rightarrow> nat \<Rightarrow> nat \<Rightarrow> err option \<Rightarrow> pump_pc \<Rightarrow> bool" where
  "pc_ok opts n att ce (PStartRet r) = (n = att \<and> (\<exists>e. r = Some e \<and> attempt_error e))"
| "pc_ok opts n att ce PRetryWait = (n = att + 1 \<and> int att + 1 < StartMaxAttempt opts)"
| "pc_ok opts n att ce (PFinished r) = (\<exists>e. r = Some e \<and> start_result opts ce e)"
| "pc_ok opts n att ce pc = (n = att)"

definition ctx_error :: "err option \<Rightarrow> bool" where
  "ctx_error oe = (oe = None \<or> oe = Some Canceled \<or> oe = Some DeadlineExceeded)"

definition start_inv :: "ProcessorOptions \<Rightarrow> pstate \<Rightarrow> bool" where
  "start_inv opts s \<longleftrightarrow>
     list_all attempt_error (saved_errors s) \<and> int (attempt s) < StartMaxAttempt opts \<and> ctx_error (pctxErr s)
     \<and> pc_ok opts (length (saved_errors s)) (attempt s) (pctxErr s) (pump s)
     \<and> attempts_started s = attempt s + (if pump s = PAttempt then 0 else 1)"

lemma attempt_error_joined [simp]: "attempt_error e \<Longrightarrow> joined e = [e]"
  by (cases e rule: attempt_error.cases) auto

lemma joined_errors_Join:
  assumes "attempt_error e"
  shows "\<exists>j. errors_Join [s, Some e] = Some j \<and> joined j = (case s of None \<Rightarrow> [] | Some x \<Rightarrow> joined x) @ [e]"
  using assms by (cases s) (auto simp: errors_Join_snoc)

lemma ctx_attempt_error: "ctx_error (Some e) \<Longrightarrow> attempt_error e"
  by (auto simp: ctx_error_def)

lemmas start_inv_defs = start_inv_def saved_errors_def attempts_started_def

lemma start_inv_failed:
  assumes "start_inv opts s" and "pump s = PStartRet (Some e)"
    and "errors_Join [savedError s, Some e] = Some j" "joined j = saved_errors s @ [e]"
  shows "start_inv opts (s\<lparr>savedError := Some j, ptrace := t,
     pump := (if int (attempt s) + 1 = StartMaxAttempt opts then PFinished (Some j) else PRetryWait)\<rparr>)"
  using assms by (auto simp: start_inv_defs start_result_def)

lemma pump_step_start_inv:
  assumes "pump_step opts s = Some s'" and inv: "start_inv opts s"
  shows "start_inv opts s'"
  using assms(1)
proof (cases rule: pump_step_cases)
  case (exit e)
  with inv show ?thesis by (simp add: start_inv_defs ctx_attempt_error)
next
  case (failed e)
  from failed(1) inv have "attempt_error e" by (simp add: start_inv_def)
  from joined_errors_Join [OF this, of "savedError s"] obtain j
    where j: "errors_Join [savedError s, Some e] = Some j" "joined j = saved_errors s @ [e]"
    by (auto simp: saved_errors_def)
  show ?thesis unfolding failed(2) j(1) by (rule start_inv_failed [OF inv failed(1) j])
qed (use inv in \<open>simp_all add: start_inv_defs\<close>)

lemma receive_start_inv:
  assumes "start_inv opts s"
  shows "recv_returns ms s = Some s' \<Longrightarrow> start_inv opts s'"
    and "recv_fails e s = Some s' \<Longrightarrow> start_inv opts s'"
    and "recv_panics p s = Some s' \<Longrightarrow> start_inv opts s'"
proof -
  show "start_inv opts s'" if "recv_returns ms s = Some s'"
    using that by (cases rule: recv_returns_cases) (use assms in \<open>auto simp: start_inv_defs\<close>)
  show "start_inv opts s'" if "recv_fails e s = Some s'"
    using that assms by (auto simp: recv_fails_def in_receive_iff start_inv_defs split: if_splits)
  show "start_inv opts s'" if "recv_panics p s = Some s'"
    using that assms by (auto simp: recv_panics_def in_receive_iff start_inv_defs start_result_def split: if_splits)
qed

lemma retry_start_inv:
  assumes "start_inv opts s"
  shows "retry_timer opts s = Some s' \<Longrightarrow> start_inv opts s'"
    and "retry_ctx_done opts s = Some s' \<Longrightarrow> start_inv opts s'"
proof -
  show "start_inv opts s'" if "retry_timer opts s = Some s'"
    using that assms by (auto simp: retry_timer_def start_inv_defs start_result_def split: option.splits if_splits)
  show "start_inv opts s'" if "retry_ctx_done opts s = Some s'"
    using that assms by (auto simp: retry_ctx_done_def plog_def start_inv_defs start_result_def split: if_splits)
qed

lemma start_inv_frame:
  assumes "pump s' = pump s" "attempt s' = attempt s" "savedError s' = savedError s"
    "pctxErr s' = pctxErr s" "requests s' = requests s" and "start_inv opts s"
  shows "start_inv opts s'"
  using assms by (simp add: start_inv_defs)

lemma pc_ok_cancel:
  assumes "pc_ok opts n att None pc"
  shows "pc_ok opts n att (Some e) pc"
  using assms by (cases pc) (auto simp: start_result_def)

lemma go_frame:
  "goroutine_step i s = Some s' \<Longrightarrow> pump s' = pump s \<and> attempt s' = attempt s \<and> savedError s' = savedError s
     \<and> pctxErr s' = pctxErr s \<and> requests s' = requests s \<and> received s' = received s"
  "handler_ends i p s = Some s' \<Longrightarrow> pump s' = pump s \<and> attempt s' = attempt s \<and> savedError s' = savedError s
     \<and> pctxErr s' = pctxErr s \<and> requests s' = requests s \<and> received s' = received s"
  by (auto simp: go_defs Let_def split: gpc.splits if_splits)

lemma pstep_start_inv:
  assumes "pstep opts a s = Some s'" and "start_inv opts s"
  shows "start_inv opts s'"
  using assms(1)
proof (cases rule: pstep_cases)
  case pump
  with assms(2) show ?thesis by (blast intro: pump_step_start_inv)
next
  case (go i)
  from go_frame(1) [OF go(1)] assms(2) show ?thesis by (simp add: start_inv_frame [of s' s])
next
  case (ends i p)
  from go_frame(2) [OF ends(1)] assms(2) show ?thesis by (simp add: start_inv_frame [of s' s])
next
  case (cancel e)
  with assms(2) show ?thesis by (auto simp: start_inv_defs ctx_error_def intro: pc_ok_cancel)
next
  case tick
  with assms(2) show ?thesis by (simp add: start_inv_defs)
next
  case ctxdone
  with assms(2) show ?thesis by (simp add: start_inv_defs plog_def)
qed (use assms(2) in \<open>auto intro: receive_start_inv retry_start_inv\<close>)

interpretation starts: step_invariant "pstep (applyProcessorOptions o')" init_pstate
  "start_inv (applyProcessorOptions o')" for o'
  by unfold_locales
    (use apply_valid [of o'] in \<open>simp add: start_inv_defs ctx_error_def init_pstate_def valid_opts_def\<close>,
     erule (1) pstep_start_inv)

section \<open>When dispatching has to wait\<close>

text \<open>
  The documented behaviour of \<open>ReceiveMessages\<close>: it returns at most as many messages as it was asked
  for. \<open>sdk_step\<close> is the processor running against a receiver that keeps to it.
\<close>

definition asked :: "ProcessorOptions \<Rightarrow> pstate \<Rightarrow> int" where
  "asked opts s = (case pump s of PInitRecv \<Rightarrow> MaxReceiveCount opts | PRecv n \<Rightarrow> n | _ \<Rightarrow> 0)"

definition sdk_step :: "ProcessorOptions \<Rightarrow> paction \<Rightarrow> pstate \<Rightarrow> pstate option" where
  "sdk_step opts a s = (case a of
     RecvReturns ms \<Rightarrow> (if int (length ms) \<le> asked opts s then pstep opts a s else None)
   | _ \<Rightarrow> pstep opts a s)"

text \<open>A run against such a receiver is a run of the processor.\<close>

lemma sdk_step_pstep: "sdk_step opts a s = Some s' \<Longrightarrow> pstep opts a s = Some s'"
  by (auto simp: sdk_step_def split: paction.splits if_splits)

lemma sdk_reachable: "reachable (sdk_step opts) init_pstate s \<Longrightarrow> reachable (pstep opts) init_pstate s"
  by (induction rule: reachable.induct) (auto intro: reachable.intros sdk_step_pstep)

text \<open>Room left in the token channel for what is about to be dispatched.\<close>

fun pc_room :: "ProcessorOptions \<Rightarrow> nat \<Rightarrow> nat \<Rightarrow> pump_pc \<Rightarrow> bool" where
  "pc_room opts t att PAttempt = (att = 0 \<longrightarrow> t = 0)"
| "pc_room opts t att PInitRecv = (att = 0 \<longrightarrow> t = 0)"
| "pc_room opts t att (PRecv n) = (int t + n \<le> MaxConcurrency opts)"
| "pc_room opts t att (PDispatch initial ms) =
     (\<not> initial \<or> att = 0 \<longrightarrow> int t + int (length ms) \<le> MaxConcurrency opts)"
| "pc_room opts t att _ = True"

definition room_inv :: "ProcessorOptions \<Rightarrow> pstate \<Rightarrow> bool" where
  "room_inv opts s = pc_room opts (tokens s) (attempt s) (pump s)"

lemma pc_room_mono: "pc_room opts t att pc \<Longrightarrow> t' \<le> t \<Longrightarrow> pc_room opts t' att pc"
  by (cases pc) auto

lemma go_tokens:
  "goroutine_step i s = Some s' \<Longrightarrow> tokens s' \<le> tokens s"
  "handler_ends i p s = Some s' \<Longrightarrow> tokens s' \<le> tokens s"
  by (auto simp: go_defs Let_def split: gpc.splits if_splits)

lemma pump_step_room_inv:
  assumes "pump_step opts s = Some s'" and "room_inv opts s"
  shows "room_inv opts s'"
  using assms(1) by (cases rule: pump_step_cases) (use assms(2) in \<open>auto simp: room_inv_def\<close>)

lemma recv_returns_room_inv:
  assumes "recv_returns ms s = Some s'" and "int (length ms) \<le> asked opts s" and "room_inv opts s" and "valid_opts opts"
  shows "room_inv opts s'"
  using assms(1) by (cases rule: recv_returns_cases)
    (use assms(2-4) in \<open>auto simp: room_inv_def asked_def valid_opts_def\<close>)

lemma other_room_inv:
  "recv_fails e s = Some s' \<Longrightarrow> room_inv opts s'"
  "recv_panics p s = Some s' \<Longrightarrow> room_inv opts s'"
  "retry_timer opts s = Some s' \<Longrightarrow> room_inv opts s'"
  "retry_ctx_done opts s = Some s' \<Longrightarrow> room_inv opts s'"
  by (auto simp: recv_fails_def recv_panics_def retry_defs room_inv_def split: option.splits if_splits)

lemma sdk_step_room_inv:
  assumes "sdk_step opts a s = Some s'" and "room_inv opts s" and "valid_opts opts"
  shows "room_inv opts s'"
proof -
  from sdk_step_pstep [OF assms(1)] show ?thesis
  proof (cases rule: pstep_cases)
    case (returns ms)
    with assms show ?thesis
      by (auto simp: sdk_step_def intro: recv_returns_room_inv split: if_splits)
  next
    case (go i)
    with go_frame(1) go_tokens(1) assms(2) show ?thesis
      unfolding room_inv_def by (metis pc_room_mono)
  next
    case (ends i p)
    with go_frame(2) go_tokens(2) assms(2) show ?thesis
      unfolding room_inv_def by (metis pc_room_mono)
  next
    case (pump)
    with assms(2) show ?thesis by (blast intro: pump_step_room_inv)
  next
    case (fails e)
    then show ?thesis by (blast intro: other_room_inv)
  next
    case (panics p)
    then show ?thesis by (blast intro: other_room_inv)
  next
    case (timer)
    then show ?thesis by (blast intro: other_room_inv)
  next
    case (giveup)
    then show ?thesis by (blast intro: other_room_inv)
  qed (use assms(2) in \<open>auto simp: room_inv_def plog_def\<close>)
qed

interpretation room: step_invariant "sdk_step (applyProcessorOptions o')" init_pstate
  "room_inv (applyProcessorOptions o')" for o'
  by unfold_locales
    (simp add: room_inv_def init_pstate_def, rule sdk_step_room_inv, assumption+, rule apply_valid)

section \<open>The first request\<close>

text \<open>The first request of a run is the initial one of the first attempt, made while no handler is in flight.\<close>

definition first_request_inv :: "pstate \<Rightarrow> bool" where
  "first_request_inv s \<longleftrightarrow>
     (if requests s = [] then tokens s = 0 \<and> (pump s = PAttempt \<or> (\<exists>r. pump s = PFinished r))
      else fst (hd (requests s)) \<and> snd (snd (hd (requests s))) = 0)"

lemma pump_step_first_request:
  assumes "pump_step opts s = Some s'" and "first_request_inv s"
  shows "first_request_inv s'"
  using assms(1) by (cases rule: pump_step_cases)
    (use assms(2) in \<open>auto simp: first_request_inv_def hd_append split: if_splits\<close>)

lemma receive_first_request:
  assumes "first_request_inv s"
  shows "recv_returns ms s = Some s' \<Longrightarrow> first_request_inv s'"
    and "recv_fails e s = Some s' \<Longrightarrow> first_request_inv s'"
    and "recv_panics p s = Some s' \<Longrightarrow> first_request_inv s'"
    and "retry_timer opts s = Some s' \<Longrightarrow> first_request_inv s'"
    and "retry_ctx_done opts s = Some s' \<Longrightarrow> first_request_inv s'"
  using assms by (auto simp: recv_returns_def recv_fails_def recv_panics_def in_receive_iff plog_def pmetric_def Let_def
      retry_defs first_request_inv_def split: pump_pc.splits option.splits if_splits)

lemma pstep_first_request:
  assumes "pstep opts a s = Some s'" and "first_request_inv s"
  shows "first_request_inv s'"
  using assms(1)
proof (cases rule: pstep_cases)
  case pump
  with assms(2) show ?thesis by (blast intro: pump_step_first_request)
next
  case (go i)
  from go_frame(1) [OF go(1)] go_tokens(1) [OF go(1)] assms(2) show ?thesis
    by (auto simp: first_request_inv_def split: if_splits)
next
  case (ends i p)
  from go_frame(2) [OF ends(1)] go_tokens(2) [OF ends(1)] assms(2) show ?thesis
    by (auto simp: first_request_inv_def split: if_splits)
qed (use assms(2) receive_first_request [OF assms(2)] in \<open>auto simp: first_request_inv_def plog_def split: if_splits\<close>)

interpretation first_request: step_invariant "pstep opts" init_pstate first_request_inv for opts
  by unfold_locales (simp add: first_request_inv_def init_pstate_def, erule (1) pstep_first_request)

section \<open>No reachable state is stuck\<close>

lemma goroutine_not_stuck:
  assumes "\<not> crashed s" and "token_inv opts s" and "i < length (gos s)" and "\<And>p. snd (gos s ! i) \<noteq> GDone p"
  shows "\<exists>a. pstep opts a s \<noteq> None"
proof (cases "snd (gos s ! i)")
  case GHandling
  with assms show ?thesis by (intro exI [of _ "HandlerReturns i"]) (simp add: pstep_def handler_ends_def)
next
  case (GUnwinding p)
  then have "holds_token (snd (gos s ! i))" by simp
  from filter_nth_pos [where P = "\<lambda>g. holds_token (snd g)", OF assms(3) this] assms(2) have "tokens s > 0"
    by (auto simp: token_inv_def in_flight_def)
  with assms GUnwinding show ?thesis
    by (intro exI [of _ "Goroutine i"]) (simp add: pstep_def goroutine_step_def Let_def)
qed (use assms in \<open>auto intro!: exI [of _ "Goroutine i"] simp: pstep_def goroutine_step_def Let_def\<close>)

lemma pump_not_stuck:
  assumes "\<not> crashed s" and "\<And>r. pump s \<noteq> PFinished r"
    and "tokens s < nat (MaxConcurrency opts) \<or> pending s = []" and "StartRetryDelayStrategy opts \<noteq> None"
  shows "\<exists>a. pstep opts a s \<noteq> None"
proof (cases "pump s")
  case PInitRecv
  with assms(1) show ?thesis by (intro exI [of _ "RecvFails Canceled"]) (simp add: pstep_def recv_fails_def in_receive_iff)
next
  case (PRecv n)
  with assms(1) show ?thesis by (intro exI [of _ "RecvFails Canceled"]) (simp add: pstep_def recv_fails_def in_receive_iff)
next
  case (PDispatch initial ms)
  with assms(1,3) show ?thesis
    by (intro exI [of _ Pump]) (auto simp: pstep_def pump_step_def process_def pending_def split: list.splits)
next
  case PSelect
  with assms(1) show ?thesis by (intro exI [of _ Tick]) (simp add: pstep_def)
next
  case PRetryWait
  with assms(1,4) show ?thesis by (intro exI [of _ RetryTimer]) (auto simp: pstep_def retry_timer_def)
next
  case (PStartRet r)
  with assms(1) show ?thesis
    by (intro exI [of _ Pump]) (cases r, simp_all add: pstep_def pump_step_def Let_def)
qed (use assms in \<open>auto intro!: exI [of _ Pump] simp: pstep_def pump_step_def Let_def\<close>)

section \<open>Winding down\<close>

text \<open>
  Once the context is done every action brings the processor closer to its end: the number of
  attempts left, then the point of the pump, then the messages and goroutine steps outstanding.
\<close>

fun pc_rank :: "pump_pc \<Rightarrow> nat" where
  "pc_rank PAttempt = 9"
| "pc_rank PInitRecv = 8"
| "pc_rank (PRecv n) = 7"
| "pc_rank (PDispatch initial ms) = 6"
| "pc_rank PSelect = 5"
| "pc_rank PTick = 4"
| "pc_rank PLoop = 3"
| "pc_rank (PStartRet r) = 2"
| "pc_rank PRetryWait = 1"
| "pc_rank (PFinished r) = 0"

fun go_rank :: "gpc \<Rightarrow> nat" where
  "go_rank GSpawned = 5"
| "go_rank GHandling = 4"
| "go_rank (GUnwinding p) = 3"
| "go_rank (GReleased p) = 2"
| "go_rank (GCounted p) = 1"
| "go_rank (GDone p) = 0"

definition work_left :: "pstate \<Rightarrow> nat" where
  "work_left s = 6 * length (pending s) + sum_list (map (\<lambda>g. go_rank (snd g)) (gos s))"

definition wind_down :: "ProcessorOptions \<Rightarrow> (pstate \<times> pstate) set" where
  "wind_down opts = measures [\<lambda>s. nat (StartMaxAttempt opts) - attempt s, \<lambda>s. pc_rank (pump s), work_left]"

lemma sum_list_update_less:
  fixes f :: "'a \<Rightarrow> nat"
  assumes "i < length xs" and "f y < f (xs ! i)"
  shows "sum_list (map f (xs[i := y])) < sum_list (map f xs)"
  using assms by (induction xs arbitrary: i) (auto split: nat.splits)

lemma go_work_left:
  "goroutine_step i s = Some s' \<Longrightarrow> work_left s' < work_left s"
  "handler_ends i p s = Some s' \<Longrightarrow> work_left s' < work_left s"
  by (auto simp: go_defs work_left_def pending_def Let_def intro!: sum_list_update_less split: gpc.splits if_splits)

lemma wind_down_step:
  assumes "pstep opts a s = Some s'" and "start_inv opts s" and "pctxErr s \<noteq> None"
  shows "(s', s) \<in> wind_down opts \<and> pctxErr s' \<noteq> None"
  using assms(1)
proof (cases rule: pstep_cases)
  case pump
  from pump(1) show ?thesis
    by (cases rule: pump_step_cases)
      (use assms(2,3) in \<open>auto simp: wind_down_def measures_def start_inv_def work_left_def pending_def\<close>)
next
  case (returns ms)
  from returns(1) show ?thesis
    by (cases rule: recv_returns_cases) (use assms(3) in \<open>auto simp: wind_down_def measures_def\<close>)
next
  case (go i)
  from go_frame(1) [OF go(1)] go_work_left(1) [OF go(1)] assms(3) show ?thesis
    by (simp add: wind_down_def measures_def)
next
  case (ends i p)
  from go_frame(2) [OF ends(1)] go_work_left(2) [OF ends(1)] assms(3) show ?thesis
    by (simp add: wind_down_def measures_def)
next
  case timer
  with assms(2,3) show ?thesis
    by (auto simp: retry_timer_def wind_down_def measures_def start_inv_def split: option.splits if_splits)
qed (use assms(3) in \<open>auto simp: wind_down_def measures_def recv_fails_def recv_panics_def in_receive_iff retry_ctx_done_def
      plog_def split: if_splits\<close>)

section \<open>Metrics agree with the goroutines\<close>

fun inc_of :: "(ReceivedMessage \<Rightarrow> bool) \<Rightarrow> recorder_call \<Rightarrow> bool" where
  "inc_of P (IncConcurrentMessageCount m) = P m"
| "inc_of P _ = False"

fun dec_of :: "(ReceivedMessage \<Rightarrow> bool) \<Rightarrow> recorder_call \<Rightarrow> bool" where
  "dec_of P (DecConcurrentMessageCount m) = P m"
| "dec_of P _ = False"

fun handled_of :: "(ReceivedMessage \<Rightarrow> bool) \<Rightarrow> recorder_call \<Rightarrow> bool" where
  "handled_of P (IncMessageHandled m) = P m"
| "handled_of P _ = False"

fun received_of :: "recorder_call \<Rightarrow> nat" where
  "received_of (IncMessageReceived n) = n"
| "received_of _ = 0"

fun started :: "gpc \<Rightarrow> bool" where
  "started GSpawned = False"
| "started _ = True"

fun counted :: "gpc \<Rightarrow> bool" where
  "counted (GCounted p) = True"
| "counted (GDone p) = True"
| "counted _ = False"

fun finished :: "gpc \<Rightarrow> bool" where
  "finished (GDone p) = True"
| "finished _ = False"

text \<open>Number of goroutines at a given stage whose message satisfies \<open>P\<close>.\<close>

definition goroutines :: "(gpc \<Rightarrow> bool) \<Rightarrow> (ReceivedMessage \<Rightarrow> bool) \<Rightarrow> pstate \<Rightarrow> nat" where
  "goroutines st P s = length (filter (\<lambda>g. st (snd g) \<and> P (fst g)) (gos s))"

definition calls :: "(recorder_call \<Rightarrow> bool) \<Rightarrow> pstate \<Rightarrow> nat" where
  "calls c s = length (filter c (metrics (ptrace s)))"

definition received_total :: "pstate \<Rightarrow> nat" where
  "received_total s = sum_list (map received_of (metrics (ptrace s)))"

definition metric_inv :: "(ReceivedMessage \<Rightarrow> bool) \<Rightarrow> pstate \<Rightarrow> bool" where
  "metric_inv P s \<longleftrightarrow> calls (inc_of P) s = goroutines started P s \<and> calls (handled_of P) s = goroutines counted P s
     \<and> calls (dec_of P) s = goroutines finished P s \<and> received_total s = length (received s)"

lemmas metric_inv_defs = metric_inv_def calls_def goroutines_def received_total_def

lemma goroutine_metric_inv:
  assumes "goroutine_step i s = Some s'" and "metric_inv P s"
  shows "metric_inv P s'"
  using assms by (auto simp: go_defs metric_inv_defs Let_def filter_update_count split: gpc.splits if_splits)

lemma handler_ends_metric_inv:
  assumes "handler_ends i p s = Some s'" and "metric_inv P s"
  shows "metric_inv P s'"
  using assms by (auto simp: go_defs metric_inv_defs filter_update_count split: if_splits)

lemma other_metric_inv:
  "recv_fails e s = Some s' \<Longrightarrow> metric_inv P s \<Longrightarrow> metric_inv P s'"
  "recv_panics p s = Some s' \<Longrightarrow> metric_inv P s \<Longrightarrow> metric_inv P s'"
  "retry_timer opts s = Some s' \<Longrightarrow> metric_inv P s \<Longrightarrow> metric_inv P s'"
  "retry_ctx_done opts s = Some s' \<Longrightarrow> metric_inv P s \<Longrightarrow> metric_inv P s'"
  by (auto simp: recv_fails_def recv_panics_def retry_defs metric_inv_defs split: option.splits if_splits)

lemma pstep_metric_inv:
  assumes "pstep opts a s = Some s'" and "metric_inv P s"
  shows "metric_inv P s'"
  using assms(1)
proof (cases rule: pstep_cases)
  case pump
  from pump(1) show ?thesis
    by (cases rule: pump_step_cases) (use assms(2) in \<open>auto simp: metric_inv_defs\<close>)
next
  case (returns ms)
  from returns(1) show ?thesis
    by (cases rule: recv_returns_cases) (use assms(2) in \<open>auto simp: metric_inv_defs\<close>)
next
  case (go i)
  with assms(2) show ?thesis by (blast intro: goroutine_metric_inv)
next
  case (ends i p)
  with assms(2) show ?thesis by (blast intro: handler_ends_metric_inv)
next
  case tick
  with assms(2) show ?thesis by (simp add: metric_inv_defs)
next
  case ctxdone
  with assms(2) show ?thesis by (simp add: metric_inv_defs plog_def)
next
  case (cancel e)
  with assms(2) show ?thesis by (simp add: metric_inv_defs)
qed (use assms(2) in \<open>blast intro: other_metric_inv\<close>)+

interpretation metrics_agree: step_invariant "pstep opts" init_pstate "metric_inv P" for opts P
  by unfold_locales (simp add: metric_inv_defs init_pstate_def, erule (1) pstep_metric_inv)

lemma started_split:
  "goroutines started P s = goroutines finished P s + goroutines (\<lambda>g. started g \<and> \<not> finished g) P s"
proof -
  have "finished g \<Longrightarrow> started g" for g by (cases g) auto
  then have "length (filter (\<lambda>g. started (snd g) \<and> P (fst g)) gs) =
      length (filter (\<lambda>g. finished (snd g) \<and> P (fst g)) gs)
      + length (filter (\<lambda>g. (started (snd g) \<and> \<not> finished (snd g)) \<and> P (fst g)) gs)" for gs
    by (induction gs) auto
  then show ?thesis by (simp add: goroutines_def)
qed

text \<open>The concurrency gauge of the messages of a kind is the goroutines of that kind that have begun and not finished.\<close>

lemma gauge_goroutines:
  assumes "reachable (pstep opts) init_pstate s"
  shows "calls (inc_of P) s = calls (dec_of P) s + goroutines (\<lambda>g. started g \<and> \<not> finished g) P s"
  using metrics_agree.inv_reachable [OF assms, of P] started_split [of P s] by (simp add: metric_inv_def)

section \<open>Properties\<close>

text \<open>
  C1. Bounded concurrency: whatever the interleaving of the pump, the handler goroutines and the
  environment, the tokens in the channel are exactly the handlers in flight, and there are never more
  of them than the configured \<open>MaxConcurrency\<close> (1 when it is not set or not positive).
\<close>

theorem processor_bounded_concurrency:
  assumes "reachable (pstep (applyProcessorOptions o')) init_pstate s"
  shows "tokens s = in_flight s \<and> int (in_flight s) \<le> MaxConcurrency (applyProcessorOptions o')"
proof -
  from tokens.inv_reachable [OF assms] have "token_inv (applyProcessorOptions o') s" .
  with apply_valid [of o'] show ?thesis by (auto simp: token_inv_def valid_opts_def)
qed

text \<open>A run of the default processor: one message received, its handler started.\<close>

definition busy_run :: "paction list" where
  "busy_run = [Pump, RecvReturns [sample_message], Pump, Goroutine 0, Pump]"

lemma busy_run_state:
  obtains s where "run (pstep (applyProcessorOptions None)) busy_run init_pstate = Some s"
    "gos s = [(sample_message, GHandling)]" "tokens s = 1" "pump s = PLoop" "received s = [sample_message]"
    "requests s = [(True, 1, 0)]" "pctxErr s = None" "\<not> crashed s"
  by (simp add: busy_run_def init_pstate_def pstep_def pump_defs recv_returns_def go_defs applyProcessorOptions_def Let_def)

theorem processor_bounded_concurrency_witness:
  "\<exists>s. run (pstep (applyProcessorOptions None)) busy_run init_pstate = Some s \<and> tokens s = 1
     \<and> int (in_flight s) \<le> MaxConcurrency (applyProcessorOptions None)"
proof -
  obtain s where s: "run (pstep (applyProcessorOptions None)) busy_run init_pstate = Some s" "tokens s = 1"
    by (rule busy_run_state)
  with processor_bounded_concurrency [OF run_reachable [OF s(1)]] show ?thesis by auto
qed

text \<open>
  C5. No message is lost, duplicated or reordered: in every reachable state the messages received so
  far are, in order, those handed to a handler goroutine followed by those still to be dispatched.
\<close>

theorem processor_no_message_lost:
  assumes "reachable (pstep opts) init_pstate s"
  shows "received s = map fst (gos s) @ pending s"
  using flow.inv_reachable [OF assms] by (simp add: flow_inv_def)

theorem processor_no_message_lost_witness:
  "\<exists>s. run (pstep (applyProcessorOptions None)) busy_run init_pstate = Some s
     \<and> received s = [sample_message] \<and> received s = map fst (gos s) @ pending s"
proof -
  obtain s where s: "run (pstep (applyProcessorOptions None)) busy_run init_pstate = Some s" "received s = [sample_message]"
    by (rule busy_run_state)
  with processor_no_message_lost [OF run_reachable [OF s(1)]] show ?thesis by auto
qed

text \<open>
  C7. Every \<open>ReceiveMessages\<close> call asks for a positive number of messages, at most \<open>MaxReceiveCount\<close>
  and so at most \<open>MaxConcurrency\<close>. A call of the receive loop, and the first call of the run, never ask
  for more than the handler slots that are free at that moment. The initial call of a start attempt asks
  for exactly \<open>MaxReceiveCount\<close>, so that of a second or later attempt is not bounded by the free slots:
  handlers of the attempt before may still be running. The \<open>i\<close>-th request of a run is recorded as whether it
  is the initial one of an attempt, the number asked for, and the tokens taken at that moment.
\<close>

theorem processor_requests_bounded:
  assumes "reachable (pstep (applyProcessorOptions o')) init_pstate s"
    and "i < length (requests s)" and "requests s ! i = (initial, n, t)"
  shows "0 < n \<and> n \<le> MaxReceiveCount (applyProcessorOptions o')
     \<and> MaxReceiveCount (applyProcessorOptions o') \<le> MaxConcurrency (applyProcessorOptions o')
     \<and> (\<not> initial \<or> i = 0 \<longrightarrow> n \<le> MaxConcurrency (applyProcessorOptions o') - int t)
     \<and> (initial \<longrightarrow> n = MaxReceiveCount (applyProcessorOptions o'))
     \<and> (i = 0 \<longrightarrow> initial)"
proof -
  from assms(2,3) have mem: "(initial, n, t) \<in> set (requests s)" by (metis nth_mem)
  have first: "initial \<and> t = 0" if "i = 0"
    using first_request.inv_reachable [OF assms(1)] assms(2,3) that
    by (auto simp: first_request_inv_def hd_conv_nth)
  from requests.inv_reachable [OF assms(1)] mem have "request_ok (applyProcessorOptions o') (initial, n, t)"
    by (auto simp: request_inv_def)
  with first apply_valid [of o'] show ?thesis by (auto simp: request_ok_def valid_opts_def)
qed

theorem processor_requests_bounded_witness:
  "\<exists>s. run (pstep (applyProcessorOptions None)) busy_run init_pstate = Some s \<and> requests s = [(True, 1, 0)]
     \<and> (1::int) \<le> MaxReceiveCount (applyProcessorOptions None)
     \<and> (1::int) \<le> MaxConcurrency (applyProcessorOptions None) - 0"
proof -
  obtain s where s: "run (pstep (applyProcessorOptions None)) busy_run init_pstate = Some s" "requests s = [(True, 1, 0)]"
    by (rule busy_run_state)
  from processor_requests_bounded [OF run_reachable [OF s(1)], of 0] s show ?thesis by simp
qed

text \<open>
  C14. Against a receiver that returns at most as many messages as it was asked for, the only dispatch
  that can have to wait for a token is the initial one of a second or later start attempt; it waits only
  while all \<open>MaxConcurrency\<close> handlers are in flight, and any one of them that has ended lets it go on. So \<open>process\<close>
  never blocks the receive loop, nor the first start attempt.
\<close>

theorem processor_dispatch_waits_only_on_restart:
  assumes "reachable (sdk_step (applyProcessorOptions o')) init_pstate s"
    and "pump s = PDispatch initial (m # ms)"
  shows "(\<exists>s'. process (applyProcessorOptions o') m s = Some s')
     \<or> initial \<and> 0 < attempt s \<and> int (in_flight s) = MaxConcurrency (applyProcessorOptions o')
       \<and> (\<forall>i p. i < length (gos s) \<and> snd (gos s ! i) = GUnwinding p
            \<longrightarrow> (\<exists>s1 s2. goroutine_step i s = Some s1 \<and> process (applyProcessorOptions o') m s1 = Some s2))"
proof (cases "tokens s < nat (MaxConcurrency (applyProcessorOptions o'))")
  case True
  then show ?thesis by (simp add: process_def)
next
  case False
  let ?o = "applyProcessorOptions o'"
  from tokens.inv_reachable [OF sdk_reachable [OF assms(1)]] have tok: "token_inv ?o s" .
  with False apply_valid [of o'] have full: "tokens s = in_flight s" "int (in_flight s) = MaxConcurrency ?o" "0 < tokens s"
    by (auto simp: token_inv_def valid_opts_def)
  with room.inv_reachable [OF assms(1)] assms(2) have "initial \<and> 0 < attempt s"
    by (auto simp: room_inv_def)
  moreover have "\<exists>s1 s2. goroutine_step i s = Some s1 \<and> process ?o m s1 = Some s2"
    if "i < length (gos s)" "snd (gos s ! i) = GUnwinding p" for i p
    using that full by (simp add: goroutine_step_def process_def Let_def)
  ultimately show ?thesis using full(2) by blast
qed

text \<open>
  A run of two start attempts with room for two messages: the first attempt fails while one of its
  messages is still being handled, and the second attempt receives two more.
\<close>

definition restart_options :: "ProcessorOptions option" where
  "restart_options = Some \<lparr>MaxConcurrency = 2, MaxReceiveCount = 0, ReceiveInterval = None,
     StartMaxAttempt = 2, StartRetryDelayStrategy = None\<rparr>"

definition restart_run :: "paction list" where
  "restart_run = [Pump, RecvReturns [sample_message], Pump, Pump, Pump, Tick, Pump, RecvFails (OtherError 7), Pump,
     RetryTimer, Pump, RecvReturns [sample_message, sample_message], Pump]"

lemma restart_run_state:
  obtains s where "run (sdk_step (applyProcessorOptions restart_options)) restart_run init_pstate = Some s"
    "pump s = PDispatch True [sample_message]" "requests s = [(True, 2, 0), (False, 1, 1), (True, 2, 1)]"
    "process (applyProcessorOptions restart_options) sample_message s = None"
  by (simp add: restart_run_def restart_options_def init_pstate_def sdk_step_def asked_def pstep_def pump_defs recv_returns_def
      recv_fails_def in_receive_iff retry_timer_def applyProcessorOptions_def Let_def errors_Join_snoc)

theorem processor_dispatch_waits_only_on_restart_witness:
  "(\<exists>s. run (sdk_step (applyProcessorOptions restart_options)) restart_run init_pstate = Some s
     \<and> process (applyProcessorOptions restart_options) sample_message s = None
     \<and> 0 < attempt s \<and> int (in_flight s) = MaxConcurrency (applyProcessorOptions restart_options))
   \<and> (\<exists>s s'. run (sdk_step (applyProcessorOptions None)) [Pump, RecvReturns [sample_message]] init_pstate = Some s
     \<and> process (applyProcessorOptions None) sample_message s = Some s')"
proof
  obtain s where s: "run (sdk_step (applyProcessorOptions restart_options)) restart_run init_pstate = Some s"
    "pump s = PDispatch True [sample_message]" "process (applyProcessorOptions restart_options) sample_message s = None"
    by (rule restart_run_state)
  from processor_dispatch_waits_only_on_restart [OF run_reachable [OF s(1)] s(2)] s(1,3)
  show "\<exists>s. run (sdk_step (applyProcessorOptions restart_options)) restart_run init_pstate = Some s
     \<and> process (applyProcessorOptions restart_options) sample_message s = None
     \<and> 0 < attempt s \<and> int (in_flight s) = MaxConcurrency (applyProcessorOptions restart_options)" by auto
next
  obtain s where s: "run (sdk_step (applyProcessorOptions None)) [Pump, RecvReturns [sample_message]] init_pstate = Some s"
    "pump s = PDispatch True [sample_message]" "attempt s = 0"
    by (simp add: init_pstate_def sdk_step_def asked_def pstep_def pump_defs recv_returns_def applyProcessorOptions_def)
  from processor_dispatch_waits_only_on_restart [OF run_reachable [OF s(1)] s(2)] s(1,3)
  show "\<exists>s s'. run (sdk_step (applyProcessorOptions None)) [Pump, RecvReturns [sample_message]] init_pstate = Some s
     \<and> process (applyProcessorOptions None) sample_message s = Some s'" by auto
qed

text \<open>
  C12. When \<open>Start\<close> returns, it returns an error, and the error is one of three: the join of exactly
  \<open>StartMaxAttempt\<close> errors, one per start attempt, each a failed receive or the context's error; the
  context's own error, when the context ended the wait between attempts; or the report of a panic
  recovered from the pump. There are never more than \<open>StartMaxAttempt\<close> attempts.
\<close>

theorem processor_start_returns_error:
  assumes "reachable (pstep (applyProcessorOptions o')) init_pstate s" and "pump s = PFinished r"
  shows "(\<exists>e. r = Some e \<and> start_result (applyProcessorOptions o') (pctxErr s) e)
     \<and> int (attempts_started s) \<le> StartMaxAttempt (applyProcessorOptions o')"
  using starts.inv_reachable [OF assms(1)] assms(2) by (auto simp: start_inv_def)

theorem processor_start_returns_error_witness:
  "\<exists>s. run (pstep (applyProcessorOptions None)) [Pump, RecvFails (OtherError 7), Pump] init_pstate = Some s
     \<and> pump s = PFinished (Some (JoinError [WrapError ''failed to receive messages'' (Some (OtherError 7))]))
     \<and> start_result (applyProcessorOptions None) (pctxErr s)
          (JoinError [WrapError ''failed to receive messages'' (Some (OtherError 7))])"
proof -
  obtain s where s: "run (pstep (applyProcessorOptions None)) [Pump, RecvFails (OtherError 7), Pump] init_pstate = Some s"
    "pump s = PFinished (Some (JoinError [WrapError ''failed to receive messages'' (Some (OtherError 7))]))"
    by (simp add: init_pstate_def pstep_def pump_defs recv_fails_def in_receive_iff applyProcessorOptions_def
        errors_Join_snoc Let_def)
  from processor_start_returns_error [OF run_reachable [OF s(1)] s(2)] s show ?thesis by auto
qed

text \<open>
  C11. The processor never deadlocks: a reachable state in which no action at all is possible, and in
  which no handler panic has ended the program, is one where \<open>Start\<close> has returned, the context is done
  and every handler goroutine has finished.
\<close>

theorem processor_never_deadlocks:
  assumes "reachable (pstep (applyProcessorOptions o')) init_pstate s" and "\<not> crashed s"
    and "\<And>a. pstep (applyProcessorOptions o') a s = None"
  shows "(\<exists>r. pump s = PFinished r) \<and> pctxErr s \<noteq> None \<and> (\<forall>g\<in>set (gos s). finished (snd g))"
proof -
  let ?o = "applyProcessorOptions o'"
  note tok = tokens.inv_reachable [OF assms(1)]
  have fin: "finished (snd g)" if g: "g \<in> set (gos s)" for g
  proof (rule ccontr)
    assume "\<not> finished (snd g)"
    from g obtain i where "i < length (gos s)" "gos s ! i = g" by (auto simp: in_set_conv_nth)
    with goroutine_not_stuck [OF assms(2) tok, of i] \<open>\<not> finished (snd g)\<close> assms(3) show False by force
  qed
  have "holds_token x \<Longrightarrow> \<not> finished x" for x by (cases x) auto
  with fin have "tokens s = 0" using tok by (auto simp: token_inv_def in_flight_def filter_empty_conv)
  with apply_valid [of o'] have room: "tokens s < nat (MaxConcurrency ?o) \<or> pending s = []"
    and strat: "StartRetryDelayStrategy ?o \<noteq> None" by (auto simp: valid_opts_def)
  have "\<exists>r. pump s = PFinished r"
    by (metis assms(3) pump_not_stuck [OF assms(2) _ room strat])
  moreover have "pctxErr s \<noteq> None"
    using assms(2) assms(3) [of "CancelCtx Canceled"] by (auto simp: pstep_def split: if_splits)
  ultimately show ?thesis using fin by blast
qed

text \<open>A run of the default processor to its end.\<close>

definition ended_run :: "paction list" where
  "ended_run = [Pump, RecvFails (OtherError 7), Pump, CancelCtx Canceled]"

lemma ended_run_state:
  obtains s where "run (pstep (applyProcessorOptions None)) ended_run init_pstate = Some s"
    "gos s = []" "pctxErr s = Some Canceled" "\<not> crashed s" "\<exists>r. pump s = PFinished r"
  by (simp add: ended_run_def init_pstate_def pstep_def pump_defs recv_fails_def in_receive_iff applyProcessorOptions_def
      Let_def)

theorem processor_never_deadlocks_witness:
  "\<exists>s. run (pstep (applyProcessorOptions None)) ended_run init_pstate = Some s
     \<and> (\<exists>r. pump s = PFinished r) \<and> pctxErr s \<noteq> None \<and> (\<forall>g\<in>set (gos s). finished (snd g))"
proof -
  obtain s where s: "run (pstep (applyProcessorOptions None)) ended_run init_pstate = Some s"
    "gos s = []" "pctxErr s = Some Canceled" "\<not> crashed s" "\<exists>r. pump s = PFinished r"
    by (rule ended_run_state)
  have "pstep (applyProcessorOptions None) a s = None" for a
    using s(2-5) by (cases a) (auto simp: pstep_def pump_step_def recv_returns_def recv_fails_def recv_panics_def
        in_receive_iff retry_defs go_defs)
  from processor_never_deadlocks [OF run_reachable [OF s(1)] s(4) this] s(1) show ?thesis by blast
qed

text \<open>
  C15. The processor winds down: from a reachable state in which the context is done there is no
  infinite run, so together with the absence of deadlocks every run that is continued as long as
  possible reaches the state in which \<open>Start\<close> has returned and all handlers have finished.
\<close>

theorem processor_winds_down:
  assumes "reachable (pstep (applyProcessorOptions o')) init_pstate s" and "pctxErr s \<noteq> None"
  shows "\<not> (\<exists>f. f 0 = s \<and> (\<forall>i. \<exists>a. pstep (applyProcessorOptions o') a (f i) = Some (f (Suc i))))"
proof
  let ?o = "applyProcessorOptions o'"
  assume "\<exists>f. f 0 = s \<and> (\<forall>i. \<exists>a. pstep ?o a (f i) = Some (f (Suc i)))"
  then obtain f where f: "f 0 = s" "\<And>i. \<exists>a. pstep ?o a (f i) = Some (f (Suc i))" by blast
  have inv: "start_inv ?o (f i) \<and> pctxErr (f i) \<noteq> None" for i
  proof (induction i)
    case 0
    show ?case using starts.inv_reachable [OF assms(1)] assms(2) f(1) by simp
  next
    case (Suc i)
    obtain a where "pstep ?o a (f i) = Some (f (Suc i))" using f(2) by blast
    with Suc show ?case by (meson pstep_start_inv wind_down_step)
  qed
  have "(f (Suc i), f i) \<in> wind_down ?o" for i
    using f(2) inv wind_down_step by meson
  moreover have "wf (wind_down ?o)" by (simp add: wind_down_def)
  ultimately show False using wf_iff_no_infinite_down_chain by blast
qed

theorem processor_winds_down_witness:
  "\<exists>s. run (pstep (applyProcessorOptions None)) [CancelCtx Canceled] init_pstate = Some s
     \<and> \<not> (\<exists>f. f 0 = s \<and> (\<forall>i. \<exists>a. pstep (applyProcessorOptions None) a (f i) = Some (f (Suc i))))"
proof -
  obtain s where s: "run (pstep (applyProcessorOptions None)) [CancelCtx Canceled] init_pstate = Some s" "pctxErr s \<noteq> None"
    by (simp add: init_pstate_def pstep_def)
  from processor_winds_down [OF run_reachable [OF s(1)] s(2)] s(1) show ?thesis by blast
qed

text \<open>
  C31. The metrics agree with the goroutines, for the messages of any kind \<open>P\<close> (a message type, say):
  the calls that raise the in-progress gauge are the goroutines that have begun, the calls that lower
  it those that have finished, so the gauge shows the goroutines in between and is never negative; the
  handled counter counts the goroutines that have given their token back and passed the counter; and
  the received counter adds up to the number of messages received.
\<close>

theorem processor_metrics_agree:
  assumes "reachable (pstep opts) init_pstate s"
  shows "calls (inc_of P) s = goroutines started P s
     \<and> calls (dec_of P) s = goroutines finished P s
     \<and> calls (inc_of P) s - calls (dec_of P) s = goroutines (\<lambda>g. started g \<and> \<not> finished g) P s
     \<and> calls (dec_of P) s \<le> calls (inc_of P) s
     \<and> calls (handled_of P) s = goroutines counted P s
     \<and> received_total s = length (received s)"
  using metrics_agree.inv_reachable [OF assms, of P] started_split [of P s] by (simp add: metric_inv_def)

theorem processor_metrics_agree_witness:
  "\<exists>s. run (pstep (applyProcessorOptions None)) busy_run init_pstate = Some s
     \<and> calls (inc_of (\<lambda>_. True)) s - calls (dec_of (\<lambda>_. True)) s = 1"
proof -
  obtain s where s: "run (pstep (applyProcessorOptions None)) busy_run init_pstate = Some s"
    "gos s = [(sample_message, GHandling)]"
    by (rule busy_run_state)
  with processor_metrics_agree [OF run_reachable [OF s(1)], of "\<lambda>_. True"] show ?thesis
    by (auto simp: goroutines_def)
qed

end
