(* ===== verification/WorkerPool.thy ===== *)
theory WorkerPool
  imports ProcessorRuns "HOL-Library.Multiset"
begin

text \<open>
  The abstract specification of the processor: a pool that takes in batches of messages, works on at
  most \<open>cap\<close> of them at a time, starts them in the order they came in and finishes each of them once.
  The step function of \<^verbatim>\<open>v2/processor.go\<close> refines it.
\<close>

section \<open>The abstract pool\<close>

record pool =
  waiting :: "ReceivedMessage list"
  working :: "ReceivedMessage multiset"
  completed :: "ReceivedMessage multiset"

inductive pool_step :: "nat \<Rightarrow> pool \<Rightarrow> pool \<Rightarrow> bool" for cap where
  arrive: "waiting p = [] \<Longrightarrow> pool_step cap p (p\<lparr>waiting := ms\<rparr>)"
| start: "waiting p = m # ms \<Longrightarrow> size (working p) < cap \<Longrightarrow>
    pool_step cap p (p\<lparr>waiting := ms, working := add_mset m (working p)\<rparr>)"
| complete: "m \<in># working p \<Longrightarrow>
    pool_step cap p (p\<lparr>working := working p - {#m#}, completed := add_mset m (completed p)\<rparr>)"

inductive_cases pool_stepE: "pool_step cap p p'"

section \<open>The abstraction\<close>

definition messages_at :: "(gpc \<Rightarrow> bool) \<Rightarrow> (ReceivedMessage \<times> gpc) list \<Rightarrow> ReceivedMessage multiset" where
  "messages_at st gs = mset (map fst (filter (\<lambda>g. st (snd g)) gs))"

definition abs_pool :: "pstate \<Rightarrow> pool" where
  "abs_pool s = \<lparr>waiting = pending s, working = messages_at holds_token (gos s),
     completed = messages_at (\<lambda>g. \<not> holds_token g) (gos s)\<rparr>"

lemma messages_at_simps [simp]:
  "messages_at st [] = {#}"
  "messages_at st ((m, g) # gs) = (if st g then add_mset m (messages_at st gs) else messages_at st gs)"
  "messages_at st (gs @ [(m, g)]) = (if st g then add_mset m (messages_at st gs) else messages_at st gs)"
  by (simp_all add: messages_at_def)

lemma size_messages_at: "size (messages_at st gs) = length (filter (\<lambda>g. st (snd g)) gs)"
  by (simp only: messages_at_def size_mset length_map)

lemma messages_at_mem: "i < length gs \<Longrightarrow> st (snd (gs ! i)) \<Longrightarrow> fst (gs ! i) \<in># messages_at st gs"
  by (auto simp: messages_at_def simp del: mset_map mset_filter)

lemma messages_at_update:
  "i < length gs \<Longrightarrow> messages_at st (gs[i := (fst (gs ! i), g)]) =
     (if st (snd (gs ! i)) = st g then messages_at st gs
      else if st g then add_mset (fst (gs ! i)) (messages_at st gs)
      else messages_at st gs - {#fst (gs ! i)#})"
proof (induction gs arbitrary: i)
  case (Cons x gs)
  obtain m h where x: "x = (m, h)" by (cases x)
  show ?case
  proof (cases i)
    case 0
    with x show ?thesis by simp
  next
    case (Suc j)
    with Cons.prems messages_at_mem [of j gs st] Cons.IH [of j] x show ?thesis by auto
  qed
qed simp

lemmas abs_defs = abs_pool_def pending_def

lemma go_abs_stutter:
  assumes "goroutine_step i s = Some s'" and "\<And>p. snd (gos s ! i) \<noteq> GUnwinding p"
  shows "abs_pool s' = abs_pool s"
  using assms by (auto simp: go_defs abs_defs Let_def messages_at_update split: gpc.splits if_splits)

lemma go_abs_release:
  assumes step: "goroutine_step i s = Some s'" and pc: "snd (gos s ! i) = GUnwinding p"
  shows "pool_step cap (abs_pool s) (abs_pool s')"
proof -
  let ?m = "fst (gos s ! i)"
  from step have i: "i < length (gos s)" by (auto simp: goroutine_step_def split: if_splits)
  have "abs_pool s' = (abs_pool s)\<lparr>working := working (abs_pool s) - {#?m#},
      completed := add_mset ?m (completed (abs_pool s))\<rparr>"
    using step pc i by (auto simp: go_defs abs_defs Let_def messages_at_update split: if_splits)
  moreover have "?m \<in># working (abs_pool s)"
    using messages_at_mem [OF i] pc by (simp add: abs_pool_def)
  ultimately show ?thesis by (simp add: pool_step.complete)
qed

lemma handler_ends_abs: "handler_ends i p s = Some s' \<Longrightarrow> abs_pool s' = abs_pool s"
  by (auto simp: go_defs abs_defs messages_at_update split: if_splits)

lemma recv_returns_abs:
  assumes "recv_returns ms s = Some s'"
  shows "pool_step cap (abs_pool s) (abs_pool s')"
proof -
  from assms have "abs_pool s' = (abs_pool s)\<lparr>waiting := ms\<rparr>" and "waiting (abs_pool s) = []"
    by (cases rule: recv_returns_cases, auto simp: abs_defs)+
  then show ?thesis by (simp add: pool_step.arrive)
qed

lemma pump_step_abs:
  assumes "pump_step opts s = Some s'" and "token_inv opts s"
  shows "abs_pool s' = abs_pool s \<or> pool_step (nat (MaxConcurrency opts)) (abs_pool s) (abs_pool s')"
  using assms(1)
proof (cases rule: pump_step_cases)
  case (spawn initial m ms)
  have "size (working (abs_pool s)) = tokens s"
    using assms(2) by (simp add: abs_defs token_inv_def in_flight_def size_messages_at)
  moreover have "abs_pool s' = (abs_pool s)\<lparr>waiting := ms, working := add_mset m (working (abs_pool s))\<rparr>"
    "waiting (abs_pool s) = m # ms"
    using spawn by (simp_all add: abs_defs)
  ultimately show ?thesis using spawn(2) by (metis pool_step.start)
qed (auto simp: abs_defs)

lemma other_abs:
  "recv_fails e s = Some s' \<Longrightarrow> abs_pool s' = abs_pool s"
  "recv_panics p s = Some s' \<Longrightarrow> abs_pool s' = abs_pool s"
  "retry_timer opts s = Some s' \<Longrightarrow> abs_pool s' = abs_pool s"
  "retry_ctx_done opts s = Some s' \<Longrightarrow> abs_pool s' = abs_pool s"
  by (auto simp: recv_fails_def recv_panics_def in_receive_iff retry_defs abs_defs split: option.splits if_splits)

lemma pstep_simulates:
  assumes "pstep opts a s = Some s'" and "token_inv opts s"
  shows "abs_pool s' = abs_pool s \<or> pool_step (nat (MaxConcurrency opts)) (abs_pool s) (abs_pool s')"
  using assms(1)
proof (cases rule: pstep_cases)
  case pump
  from pump_step_abs [OF pump(1) assms(2)] show ?thesis .
next
  case (returns ms)
  then show ?thesis by (blast intro: recv_returns_abs)
next
  case (go i)
  show ?thesis
  proof (cases "\<exists>p. snd (gos s ! i) = GUnwinding p")
    case True
    with go show ?thesis by (blast intro: go_abs_release)
  next
    case False
    with go go_abs_stutter [of i s s'] show ?thesis by blast
  qed
next
  case (ends i p)
  then show ?thesis by (blast intro: handler_ends_abs)
next
  case ctxdone
  then show ?thesis by (simp add: abs_defs plog_def)
qed (auto simp: abs_defs dest: other_abs)

section \<open>Property\<close>

text \<open>
  C13. The processor refines the bounded pool: it starts as the empty pool, and every step of every
  reachable state is either invisible to the pool or one of its steps: a batch arrives only when the
  previous one is fully started, messages start in order and only while fewer than \<open>MaxConcurrency\<close>
  are at work, and each message at work completes once.
\<close>

theorem processor_refines_pool:
  assumes "reachable (pstep (applyProcessorOptions o')) init_pstate s"
    and "pstep (applyProcessorOptions o') a s = Some s'"
  shows "abs_pool init_pstate = \<lparr>waiting = [], working = {#}, completed = {#}\<rparr>
    \<and> (abs_pool s' = abs_pool s
       \<or> pool_step (nat (MaxConcurrency (applyProcessorOptions o'))) (abs_pool s) (abs_pool s'))"
  using pstep_simulates [OF assms(2) tokens.inv_reachable [OF assms(1)]]
  by (simp add: abs_defs init_pstate_def)

theorem processor_refines_pool_witness:
  "\<exists>s s'. run (pstep (applyProcessorOptions None)) [Pump, RecvReturns [sample_message]] init_pstate = Some s
     \<and> pstep (applyProcessorOptions None) Pump s = Some s'
     \<and> abs_pool s = \<lparr>waiting = [sample_message], working = {#}, completed = {#}\<rparr>
     \<and> abs_pool s' = \<lparr>waiting = [], working = {#sample_message#}, completed = {#}\<rparr>
     \<and> pool_step 1 (abs_pool s) (abs_pool s')"
proof -
  let ?o = "applyProcessorOptions None"
  obtain s where s: "run (pstep ?o) [Pump, RecvReturns [sample_message]] init_pstate = Some s"
    "pump s = PDispatch True [sample_message]" "gos s = []" "tokens s = 0" "\<not> crashed s"
    by (simp add: init_pstate_def pstep_def pump_defs recv_returns_def applyProcessorOptions_def)
  obtain s' where s': "pstep ?o Pump s = Some s'" "pump s' = PDispatch True []" "gos s' = [(sample_message, GSpawned)]"
    using s by (simp add: pstep_def pump_defs applyProcessorOptions_def)
  from processor_refines_pool [OF run_reachable [OF s(1)] s'(1)] s s' show ?thesis
    by (intro exI [of _ s] exI [of _ s']) (auto simp: abs_defs applyProcessorOptions_def)
qed

end
