(* ===== verification/LockRenewer.thy ===== *)
theory LockRenewer
  imports Handlers
begin

text \<open>
  \<^verbatim>\<open>v2/lockrenewer.go\<close>. First the sequential part: the options, the classification of errors and
  \<open>renewMessageLock\<close>, which calls the broker until it answers, the lock expires or the context is done.
  Then the concurrent part: the goroutine \<open>startPeriodicRenewal\<close> and the handler that calls \<open>stop\<close>,
  sharing the flag \<open>alive\<close>, the channel \<open>stopped\<close> and the renewal context.
\<close>

section \<open>Options\<close>

text \<open>A metric recorder is identified by a number; \<open>None\<close> is the package's own \<open>processor.Metric\<close>.\<close>

record LockRenewalOptions =
  Interval :: "duration option"
  LockRenewalTimeout :: "duration option"
  CancelMessageContextOnStop :: "bool option"
  MetricRecorder :: "opaque option"

text \<open>The fields of \<open>peekLockRenewer\<close> that \<open>NewRenewLockHandler\<close> fixes.\<close>

record peekLockRenewer =
  renewalInterval :: duration
  renewalTimeout :: duration
  cancelMessageCtxOnStop :: bool
  plr_metrics :: "opaque option"

definition renew_config :: "LockRenewalOptions option \<Rightarrow> peekLockRenewer" where
  "renew_config options =
     (let plr = \<lparr>renewalInterval = seconds 10, renewalTimeout = seconds 5, cancelMessageCtxOnStop = True, plr_metrics = None\<rparr>
      in case options of
        None \<Rightarrow> plr
      | Some o' \<Rightarrow>
         (let plr = (case Interval o' of None \<Rightarrow> plr | Some i \<Rightarrow> plr\<lparr>renewalInterval := i\<rparr>);
              plr = (case LockRenewalTimeout o' of None \<Rightarrow> plr
                     | Some t \<Rightarrow> (if t \<noteq> 0 then plr\<lparr>renewalTimeout := t\<rparr> else plr));
              plr = (case CancelMessageContextOnStop o' of None \<Rightarrow> plr | Some b \<Rightarrow> plr\<lparr>cancelMessageCtxOnStop := b\<rparr>)
          in (case MetricRecorder o' of None \<Rightarrow> plr | Some r \<Rightarrow> plr\<lparr>plr_metrics := Some r\<rparr>)))"

section \<open>Classifying renewal errors\<close>

definition isPermanent :: "err \<Rightarrow> bool" where
  "isPermanent e = (case errors_As_SB e of
     Some c \<Rightarrow> c = CodeLockLost \<or> c = CodeUnauthorizedAccess
   | None \<Rightarrow> False)"

definition is_ctx_error :: "err \<Rightarrow> bool" where
  "is_ctx_error e = (errors_Is is_canceled e \<or> errors_Is is_deadline_exceeded e)"

section \<open>renewMessageLock\<close>

definition lockLostErr :: err where
  "lockLostErr = SBError CodeLockLost"

text \<open>
  The client library may change the message's \<open>LockedUntil\<close> during a call; \<open>relock\<close> is the value it
  leaves. The loop runs on fuel: \<open>None\<close> means the fuel ran out, not a result.
\<close>

type_synonym relock = "settle_call \<Rightarrow> world \<Rightarrow> instant"

definition add_event :: "event \<Rightarrow> world \<Rightarrow> world" where
  "add_event e w = w\<lparr>events := events w @ [e]\<rparr>"

text \<open>One pass of the loop body: the broker's answer and the message and world it leaves.\<close>

definition renew_once ::
  "duration \<Rightarrow> settler \<Rightarrow> relock \<Rightarrow> Context \<Rightarrow> ReceivedMessage \<Rightarrow> world \<Rightarrow> err option \<times> ReceivedMessage \<times> world" where
  "renew_once timeout S relock ctx message w =
     (let w1 = add_event (EvLog LInfo ''renewing lock with timeout: %s'' [ADur timeout]) w;
          call = RenewMessageLock (WithTimeout ctx (now w1) timeout) message None;
          (renewErr, d) = S call w1;
          w2 = w1\<lparr>now := now w1 + int d, events := events w1 @ [EvSettle call renewErr]\<rparr>;
          message' = message\<lparr>LockedUntil := Some (relock call w1)\<rparr>;
          w3 = (case renewErr of None \<Rightarrow> w2
                | Some e \<Rightarrow> add_event (EvSpan (SpanAddEvent ''failed to renew message lock'' [AErr e]))
                             (add_event (EvLog LError ''failed to renew lock: %s'' [AErr e]) w2))
      in (renewErr, message', w3))"

text \<open>\<open>time.Until(*message.LockedUntil) > 0\<close>; dereferencing nil does not occur once the lock was read.\<close>

definition lock_left :: "ReceivedMessage \<Rightarrow> world \<Rightarrow> int" where
  "lock_left message w = (case LockedUntil message of None \<Rightarrow> 0 | Some t \<Rightarrow> t - now w)"

fun renew_loop ::
  "nat \<Rightarrow> duration \<Rightarrow> settler \<Rightarrow> relock \<Rightarrow> Context \<Rightarrow> ReceivedMessage \<Rightarrow> world
   \<Rightarrow> (err option \<times> ReceivedMessage \<times> world) option" where
  "renew_loop 0 timeout S relock ctx message w = None"
| "renew_loop (Suc fuel) timeout S relock ctx message w =
     (if lock_left message w > 0 \<and> ctx_Err ctx (now w) = None then
        (case renew_once timeout S relock ctx message w of (renewErr, message', w') \<Rightarrow>
           if \<not> errors_Is_opt is_deadline_exceeded renewErr then Some (renewErr, message', w')
           else renew_loop fuel timeout S relock ctx message'
                  (add_event (EvMetric (IncMessageLockRenewalTimeoutCount message')) w'))
      else if ctx_Err ctx (now w) \<noteq> None then Some (ctx_Err ctx (now w), message, w)
      else Some (Some lockLostErr, message, w))"

definition renewMessageLock ::
  "nat \<Rightarrow> peekLockRenewer \<Rightarrow> settler \<Rightarrow> relock \<Rightarrow> Context \<Rightarrow> ReceivedMessage \<Rightarrow> world
   \<Rightarrow> (err option \<times> ReceivedMessage \<times> world) option" where
  "renewMessageLock fuel plr S relock ctx message w =
     (if LockedUntil message = None \<or> lock_left message w < 0 then Some (Some lockLostErr, message, w)
      else renew_loop fuel (if renewalTimeout plr > 0 then renewalTimeout plr else lock_left message w)
             S relock ctx message w)"

section \<open>The renewal goroutine and stop\<close>

text \<open>
  The statements of \<open>stop\<close> that touch shared state, in order: the store to \<open>alive\<close>, the test of the
  channel's length, the send, the cancellation. The test and the send are separate steps: another
  thread may run in between.
\<close>

datatype stop_pc = StAlive | StLen | StSend | StCancel

datatype handler_pc = HRunning | HStopping stop_pc | HPanicked | HDone

text \<open>
  The renewal goroutine: before its first statement, at the loop test, in the \<open>select\<close>, in the timer
  branch before the second test of \<open>alive\<close>, inside \<open>renewMessageLock\<close>, inside \<open>stop\<close>, in the branch of
  the stop channel, returned.
\<close>

datatype renewer_pc = RInit | RTest | RSelect | RTick | RRenewing | RStopping stop_pc | RStopRecv | RExit

record rstate =
  alive :: bool
  stopped :: nat
  rctxErr :: "err option"
  hpc :: handler_pc
  rpc :: renewer_pc
  rcount :: nat
  rtrace :: "event list"

definition init_rstate :: rstate where
  "init_rstate = \<lparr>alive = False, stopped = 0, rctxErr = None, hpc = HRunning, rpc = RInit, rcount = 0, rtrace = []\<rparr>"

datatype raction =
    HandlerFinishes
  | HandlerFails
  | HStep
  | RStep
  | RTimer
  | RCtxDone
  | RStopSignal
  | RenewResult "err option"
  | CtxEnds err

definition rlog :: "event list \<Rightarrow> rstate \<Rightarrow> rstate" where
  "rlog es s = s\<lparr>rtrace := rtrace s @ es\<rparr>"

text \<open>
  One step of \<open>stop\<close>: the next point (\<open>None\<close> when \<open>stop\<close> returns) and the new state, or no step when the
  send would block. Cancelling a context that is already done has no effect.
\<close>

definition stop_step :: "peekLockRenewer \<Rightarrow> stop_pc \<Rightarrow> rstate \<Rightarrow> (stop_pc option \<times> rstate) option" where
  "stop_step plr pc s = (case pc of
     StAlive \<Rightarrow> Some (Some StLen, s\<lparr>alive := False\<rparr>)
   | StLen \<Rightarrow> (if stopped s = 0 then Some (Some StSend, s) else Some (Some StCancel, s))
   | StSend \<Rightarrow> (if stopped s < 1 then Some (Some StCancel, s\<lparr>stopped := stopped s + 1\<rparr>) else None)
   | StCancel \<Rightarrow>
       (let s' = (if cancelMessageCtxOnStop plr
                  then rlog [EvLog LInfo ''canceling message context'' []]
                         (s\<lparr>rctxErr := (case rctxErr s of None \<Rightarrow> Some Canceled | Some e \<Rightarrow> Some e)\<rparr>)
                  else s)
        in Some (None, rlog [EvLog LInfo ''stopped periodic renewal'' []] s')))"

definition handler_step :: "peekLockRenewer \<Rightarrow> rstate \<Rightarrow> rstate option" where
  "handler_step plr s = (case hpc s of
     HStopping pc \<Rightarrow>
       map_option (\<lambda>(n, s'). s'\<lparr>hpc := (case n of None \<Rightarrow> HDone | Some pc' \<Rightarrow> HStopping pc')\<rparr>) (stop_step plr pc s)
   | _ \<Rightarrow> None)"

text \<open>The steps \<open>startPeriodicRenewal\<close> takes on its own.\<close>

definition renewer_step :: "peekLockRenewer \<Rightarrow> rstate \<Rightarrow> rstate option" where
  "renewer_step plr s = (case rpc s of
     RInit \<Rightarrow> Some (s\<lparr>alive := True, rpc := RTest\<rparr>)
   | RTest \<Rightarrow> Some (s\<lparr>rpc := (if alive s then RSelect else RExit)\<rparr>)
   | RTick \<Rightarrow> (if alive s then Some (s\<lparr>rcount := rcount s + 1, rpc := RRenewing\<rparr>) else Some (s\<lparr>rpc := RExit\<rparr>))
   | RStopping pc \<Rightarrow>
       map_option (\<lambda>(n, s'). s'\<lparr>rpc := (case n of None \<Rightarrow> RTest | Some pc' \<Rightarrow> RStopping pc')\<rparr>) (stop_step plr pc s)
   | RStopRecv \<Rightarrow>
       Some ((if alive s then rlog [EvLog LInfo ''stop signal received: exiting periodic renewal'' []] (s\<lparr>alive := False\<rparr>)
              else s)\<lparr>rpc := RTest\<rparr>)
   | _ \<Rightarrow> None)"

text \<open>What the goroutine does with the result of \<open>renewMessageLock\<close>.\<close>

definition renew_result :: "ReceivedMessage \<Rightarrow> err option \<Rightarrow> rstate \<Rightarrow> rstate option" where
  "renew_result message r s =
     (if rpc s \<noteq> RRenewing then None else
      case r of
        None \<Rightarrow> Some ((rlog [EvSpan (SpanAddEvent ''message lock renewed'' [AInt (int (rcount s))]),
                             EvMetric (IncMessageLockRenewedSuccess message)] s)\<lparr>rpc := RTest\<rparr>)
      | Some e \<Rightarrow>
          (if is_ctx_error e then Some (s\<lparr>rpc := RStopping StAlive\<rparr>)
           else
             let s' = rlog [EvMetric (IncMessageLockRenewedFailure message),
                            EvSpan (SpanRecordError (WrapError ''failed to renew lock'' (Some e)))] s
             in if isPermanent e
                then Some ((rlog [EvLog LError ''stopping periodic renewal for message: %s'' [AStr (MessageID message)]] s')
                             \<lparr>rpc := RStopping StAlive\<rparr>)
                else Some (s'\<lparr>rpc := RTest\<rparr>)))"

definition ctx_done_branch :: "ReceivedMessage \<Rightarrow> rstate \<Rightarrow> rstate option" where
  "ctx_done_branch message s = (case rctxErr s of
     None \<Rightarrow> None
   | Some e \<Rightarrow>
      (if rpc s \<noteq> RSelect then None else
       let s' = rlog [EvLog LInfo ''context done: stopping periodic renewal'' [],
                      EvSpan (SpanAddEvent ''context done: stopping message lock renewal'' [])] s;
           s'' = (if errors_Is is_deadline_exceeded e
                  then rlog [EvSpan (SpanRecordError e), EvMetric (IncMessageDeadlineReachedCount message)] s' else s')
       in Some (s''\<lparr>rpc := RStopping StAlive\<rparr>)))"

definition rstep :: "peekLockRenewer \<Rightarrow> ReceivedMessage \<Rightarrow> raction \<Rightarrow> rstate \<Rightarrow> rstate option" where
  "rstep plr message a s = (case a of
     HandlerFinishes \<Rightarrow> (if hpc s = HRunning then Some (s\<lparr>hpc := HStopping StAlive\<rparr>) else None)
   | HandlerFails \<Rightarrow> (if hpc s = HRunning then Some (s\<lparr>hpc := HPanicked\<rparr>) else None)
   | HStep \<Rightarrow> handler_step plr s
   | RStep \<Rightarrow> renewer_step plr s
   | RTimer \<Rightarrow> (if rpc s = RSelect then Some (s\<lparr>rpc := RTick\<rparr>) else None)
   | RCtxDone \<Rightarrow> ctx_done_branch message s
   | RStopSignal \<Rightarrow> (if rpc s = RSelect \<and> stopped s > 0 then Some (s\<lparr>stopped := stopped s - 1, rpc := RStopRecv\<rparr>) else None)
   | RenewResult r \<Rightarrow> renew_result message r s
   | CtxEnds e \<Rightarrow> (if rctxErr s = None \<and> (e = Canceled \<or> e = DeadlineExceeded) then Some (s\<lparr>rctxErr := Some e\<rparr>) else None))"

section \<open>Lemmas: renewMessageLock\<close>

abbreviation timed_out :: "err option \<Rightarrow> bool" where
  "timed_out a \<equiv> errors_Is_opt is_deadline_exceeded a"

text \<open>
  A renewal call as the loop may make it: at an instant \<open>t\<close> not before \<open>t0\<close> at which the message context
  is live and the lock not expired, with a context that ends at most \<open>timeout\<close> later.
\<close>

definition renewal_call :: "Context \<Rightarrow> duration \<Rightarrow> instant \<Rightarrow> settle_call \<Rightarrow> bool" where
  "renewal_call ctx timeout t0 c \<longleftrightarrow> (\<exists>t m u. t0 \<le> t \<and> ctx_Err ctx t = None \<and> LockedUntil m = Some u \<and> t < u
     \<and> c = RenewMessageLock (WithTimeout ctx t timeout) m None)"

fun is_timeout_metric :: "recorder_call \<Rightarrow> bool" where
  "is_timeout_metric (IncMessageLockRenewalTimeoutCount m) = True"
| "is_timeout_metric _ = False"

definition timeout_count :: "world \<Rightarrow> nat" where
  "timeout_count w = length (filter is_timeout_metric (metrics (events w)))"

lemma renewal_call_mono: "renewal_call ctx timeout t1 c \<Longrightarrow> t0 \<le> t1 \<Longrightarrow> renewal_call ctx timeout t0 c"
  by (auto simp: renewal_call_def intro: order_trans)

lemma renew_once_cases:
  assumes "renew_once timeout S relock ctx m w = (r, m', w')"
  obtains c w1 where "c = RenewMessageLock (WithTimeout ctx (now w) timeout) m None"
    "r = fst (S c w1)" "now w' = now w + int (snd (S c w1))" "LockedUntil m' = Some (relock c w1)"
    "decisions (events w') = decisions (events w) @ [EvSettle c r]" "timeout_count w' = timeout_count w" "now w1 = now w"
proof -
  let ?c = "RenewMessageLock (WithTimeout ctx (now w) timeout) m None"
  let ?w1 = "add_event (EvLog LInfo ''renewing lock with timeout: %s'' [ADur timeout]) w"
  show thesis
    by (rule that [of ?c ?w1])
      (use assms in \<open>auto simp: renew_once_def add_event_def timeout_count_def Let_def split: prod.splits option.splits\<close>)
qed

text \<open>How a pass through the loop can end.\<close>

definition renew_outcome :: "Context \<Rightarrow> err option \<Rightarrow> (settle_call \<times> err option) list \<Rightarrow> ReceivedMessage \<Rightarrow> world \<Rightarrow> bool" where
  "renew_outcome ctx r calls m' w' \<longleftrightarrow>
     (\<exists>front c. calls = front @ [(c, r)] \<and> list_all (\<lambda>ca. timed_out (snd ca)) front \<and> \<not> timed_out r)
     \<or> (list_all (\<lambda>ca. timed_out (snd ca)) calls
         \<and> (r = ctx_Err ctx (now w') \<and> r \<noteq> None
            \<or> r = Some lockLostErr \<and> ctx_Err ctx (now w') = None \<and> lock_left m' w' \<le> 0))"

lemma renew_outcome_Cons:
  "renew_outcome ctx r calls m' w' \<Longrightarrow> timed_out a \<Longrightarrow> renew_outcome ctx r ((c, a) # calls) m' w'"
  unfolding renew_outcome_def by (auto intro: exI [of _ "(c, a) # _"])

lemma renew_loop_result:
  assumes "renew_loop fuel timeout S relock ctx m w = Some (r, m', w')"
  shows "\<exists>calls. decisions (events w') = decisions (events w) @ map (\<lambda>(c, a). EvSettle c a) calls
     \<and> list_all (\<lambda>ca. renewal_call ctx timeout (now w) (fst ca)) calls
     \<and> timeout_count w' = timeout_count w + length (filter (\<lambda>ca. timed_out (snd ca)) calls)
     \<and> renew_outcome ctx r calls m' w'"
  using assms
proof (induction fuel arbitrary: m w)
  case (Suc fuel)
  show ?case
  proof (cases "lock_left m w > 0 \<and> ctx_Err ctx (now w) = None")
    case False
    with Suc.prems show ?thesis
      by (intro exI [of _ "[]"]) (auto simp: renew_outcome_def split: if_splits)
  next
    case True
    obtain a m1 w1 where once: "renew_once timeout S relock ctx m w = (a, m1, w1)"
      by (cases "renew_once timeout S relock ctx m w")
    then obtain c v where c: "c = RenewMessageLock (WithTimeout ctx (now w) timeout) m None"
      "now w1 = now w + int (snd (S c v))"
      "decisions (events w1) = decisions (events w) @ [EvSettle c a]" "timeout_count w1 = timeout_count w"
      by (rule renew_once_cases)
    have call: "renewal_call ctx timeout (now w) c"
      using True c(1) by (auto simp: renewal_call_def lock_left_def split: option.splits)
    show ?thesis
    proof (cases "timed_out a")
      case False
      with True once Suc.prems c call show ?thesis
        by (intro exI [of _ "[(c, a)]"]) (auto simp: renew_outcome_def)
    next
      case timed: True
      let ?w2 = "add_event (EvMetric (IncMessageLockRenewalTimeoutCount m1)) w1"
      from True once timed Suc.prems have "renew_loop fuel timeout S relock ctx m1 ?w2 = Some (r, m', w')"
        by simp
      from Suc.IH [OF this] obtain calls where calls:
        "decisions (events w') = decisions (events ?w2) @ map (\<lambda>(c, a). EvSettle c a) calls"
        "list_all (\<lambda>ca. renewal_call ctx timeout (now ?w2) (fst ca)) calls"
        "timeout_count w' = timeout_count ?w2 + length (filter (\<lambda>ca. timed_out (snd ca)) calls)"
        "renew_outcome ctx r calls m' w'" by blast
      have "list_all (\<lambda>ca. renewal_call ctx timeout (now w) (fst ca)) calls"
        using calls(2) c(2) by (auto simp: list_all_iff add_event_def intro: renewal_call_mono)
      moreover have "timeout_count ?w2 = Suc (timeout_count w)"
        using c(4) by (simp add: timeout_count_def add_event_def)
      ultimately show ?thesis
        using calls c call timed
        by (intro exI [of _ "(c, a) # calls"]) (simp add: renew_outcome_Cons add_event_def)
    qed
  qed
qed simp

text \<open>
  Documented behaviour of the broker client used for termination: a call that ends with its deadline
  exceeded has taken time, and a call that fails leaves the lock's expiry as it was.
\<close>

definition timeouts_take_time :: "settler \<Rightarrow> bool" where
  "timeouts_take_time S = (\<forall>c w. timed_out (fst (S c w)) \<longrightarrow> 0 < snd (S c w))"

definition failure_keeps_lock :: "settler \<Rightarrow> relock \<Rightarrow> bool" where
  "failure_keeps_lock S relock = (\<forall>ctx m opts w u.
     fst (S (RenewMessageLock ctx m opts) w) \<noteq> None \<longrightarrow> LockedUntil m = Some u
       \<longrightarrow> relock (RenewMessageLock ctx m opts) w = u)"

lemma renew_loop_enough_fuel:
  assumes "timeouts_take_time S" and "failure_keeps_lock S relock" and "nat (lock_left m w) < fuel"
  shows "\<exists>r. renew_loop fuel timeout S relock ctx m w = Some r"
  using assms(3)
proof (induction fuel arbitrary: m w)
  case (Suc fuel)
  show ?case
  proof (cases "lock_left m w > 0 \<and> ctx_Err ctx (now w) = None")
    case False
    then show ?thesis by auto
  next
    case True
    obtain a m1 w1 where once: "renew_once timeout S relock ctx m w = (a, m1, w1)"
      by (cases "renew_once timeout S relock ctx m w")
    then obtain c v where c: "c = RenewMessageLock (WithTimeout ctx (now w) timeout) m None" "a = fst (S c v)"
      "now w1 = now w + int (snd (S c v))" "LockedUntil m1 = Some (relock c v)"
      by (rule renew_once_cases)
    show ?thesis
    proof (cases "timed_out a")
      case False
      with True once show ?thesis by simp
    next
      case timed: True
      let ?w2 = "add_event (EvMetric (IncMessageLockRenewalTimeoutCount m1)) w1"
      from timed c(2) assms(1) have "0 < snd (S c v)" by (auto simp: timeouts_take_time_def)
      moreover obtain u where u: "LockedUntil m = Some u"
        using True by (auto simp: lock_left_def split: option.splits)
      moreover have "fst (S c v) \<noteq> None" using timed c(2) by (auto split: option.splits)
      with u c(1) assms(2) have "relock c v = u" unfolding failure_keeps_lock_def by blast
      ultimately have "lock_left m1 ?w2 < lock_left m w"
        using c(3,4) by (auto simp: lock_left_def add_event_def split: option.splits)
      with True Suc.prems have "nat (lock_left m1 ?w2) < fuel" by linarith
      from Suc.IH [OF this] True once timed show ?thesis by simp
    qed
  qed
qed simp

text \<open>
  Documented behaviour of the broker client used for the time bound: a renewal call ends when its context
  is done, with at most \<open>slack\<close> nanoseconds to notice it.
\<close>

definition honours_context :: "nat \<Rightarrow> settler \<Rightarrow> bool" where
  "honours_context slack S = (\<forall>ctx m opts w d. ctx_done_at ctx = Some d
     \<longrightarrow> now w + int (snd (S (RenewMessageLock ctx m opts) w)) \<le> max (now w) d + int slack)"

lemma renewal_call_duration:
  assumes "honours_context slack S" and "c = RenewMessageLock (WithTimeout ctx (now w) timeout) m None"
    and "now v = now w" and "0 \<le> timeout"
  shows "now w + int (snd (S c v)) \<le> now w + timeout + int slack"
    and "ctx_done_at ctx = Some d \<Longrightarrow> now w + int (snd (S c v)) \<le> max (now w) d + int slack"
proof -
  obtain x where x: "ctx_done_at (WithTimeout ctx (now w) timeout) = Some x" "x \<le> now w + timeout"
    "\<And>d. ctx_done_at ctx = Some d \<Longrightarrow> x \<le> d"
    by (cases "ctx_done_at ctx") (auto simp: ctx_done_at_WithTimeout min_opt_def)
  with assms(1) have "now v + int (snd (S c v)) \<le> max (now v) x + int slack"
    unfolding assms(2) honours_context_def by blast
  with assms(3,4) x show "now w + int (snd (S c v)) \<le> now w + timeout + int slack"
    "ctx_done_at ctx = Some d \<Longrightarrow> now w + int (snd (S c v)) \<le> max (now w) d + int slack"
    by (auto simp: max_def dest!: x(3) split: if_splits)
qed

lemma renew_loop_time:
  assumes "failure_keeps_lock S relock" and "honours_context slack S" and "0 \<le> timeout"
  shows "renew_loop fuel timeout S relock ctx m w = Some (r, m', w') \<Longrightarrow> LockedUntil m = Some u
    \<Longrightarrow> now w \<le> now w' \<and> now w' \<le> max (now w) (u + timeout + int slack)
      \<and> (\<forall>d. ctx_done_at ctx = Some d \<longrightarrow> now w' \<le> max (now w) (d + int slack))"
proof (induction fuel arbitrary: m w)
  case (Suc fuel)
  show ?case
  proof (cases "lock_left m w > 0 \<and> ctx_Err ctx (now w) = None")
    case False
    with Suc.prems show ?thesis by (auto split: if_splits)
  next
    case True
    obtain a m1 w1 where once: "renew_once timeout S relock ctx m w = (a, m1, w1)"
      by (cases "renew_once timeout S relock ctx m w")
    then obtain c v where c: "c = RenewMessageLock (WithTimeout ctx (now w) timeout) m None" "a = fst (S c v)"
      "now w1 = now w + int (snd (S c v))" "LockedUntil m1 = Some (relock c v)" "now v = now w"
      by (rule renew_once_cases)
    from renewal_call_duration [OF assms(2) c(1,5) assms(3)] True Suc.prems(2) c(3)
    have w1: "now w \<le> now w1" "now w1 \<le> u + timeout + int slack"
      "\<And>d. ctx_done_at ctx = Some d \<Longrightarrow> now w1 \<le> d + int slack"
      by (auto simp: lock_left_def ctx_Err_None_iff reached_def max_def split: if_splits)
    show ?thesis
    proof (cases "timed_out a")
      case False
      with True once Suc.prems w1 show ?thesis by auto
    next
      case timed: True
      let ?w2 = "add_event (EvMetric (IncMessageLockRenewalTimeoutCount m1)) w1"
      have "fst (S c v) \<noteq> None" using timed c(2) by (auto split: option.splits)
      with Suc.prems(2) c(1,4) assms(1) have "LockedUntil m1 = Some u" unfolding failure_keeps_lock_def by blast
      moreover from True once timed Suc.prems have "renew_loop fuel timeout S relock ctx m1 ?w2 = Some (r, m', w')"
        by simp
      ultimately have "now ?w2 \<le> now w' \<and> now w' \<le> max (now ?w2) (u + timeout + int slack)
          \<and> (\<forall>d. ctx_done_at ctx = Some d \<longrightarrow> now w' \<le> max (now ?w2) (d + int slack))"
        by (intro Suc.IH)
      with w1 show ?thesis by (force simp: add_event_def)
    qed
  qed
qed simp

text \<open>The timeout \<open>renewMessageLock\<close> gives each call.\<close>

definition call_timeout :: "peekLockRenewer \<Rightarrow> ReceivedMessage \<Rightarrow> world \<Rightarrow> duration" where
  "call_timeout plr m w = (if renewalTimeout plr > 0 then renewalTimeout plr else lock_left m w)"

lemma renew_outcome_None: "renew_outcome ctx None calls m' w' \<longleftrightarrow>
    (\<exists>front c. calls = front @ [(c, None)] \<and> list_all (\<lambda>ca. timed_out (snd ca)) front)"
  by (auto simp: renew_outcome_def)

section \<open>Properties: renewMessageLock\<close>

text \<open>
  C6. What a lock renewal does, when it returns. It makes a series of broker calls (none when the message
  has no lock or an expired one, in which case the answer is the lock-lost error); each call is made
  while the message context is live and the lock not yet expired, with a context that ends no later
  than the configured timeout (the time left on the lock when that is not positive); the
  timeout metric grows by one for each call that timed out. All calls but the last timed out; the
  result is the last call's answer if that did not time out, else the message context's error if it
  is done, else the lock-lost error with the lock expired. So it reports success only when the broker did.
\<close>

theorem renew_message_lock_outcome:
  assumes "renewMessageLock fuel plr S relock ctx m w = Some (r, m', w')"
  shows "\<exists>calls. decisions (events w') = decisions (events w) @ map (\<lambda>(c, a). EvSettle c a) calls
     \<and> (LockedUntil m = None \<or> lock_left m w < 0 \<longrightarrow> calls = [] \<and> r = Some lockLostErr)
     \<and> list_all (\<lambda>ca. renewal_call ctx (call_timeout plr m w) (now w) (fst ca)) calls
     \<and> timeout_count w' = timeout_count w + length (filter (\<lambda>ca. timed_out (snd ca)) calls)
     \<and> (LockedUntil m \<noteq> None \<and> 0 \<le> lock_left m w \<longrightarrow> renew_outcome ctx r calls m' w')
     \<and> (r = None \<longrightarrow> calls \<noteq> [] \<and> snd (last calls) = None)"
proof (cases "LockedUntil m = None \<or> lock_left m w < 0")
  case True
  with assms show ?thesis
    by (intro exI [of _ "[]"]) (auto simp: renewMessageLock_def)
next
  case False
  with assms have "renew_loop fuel (call_timeout plr m w) S relock ctx m w = Some (r, m', w')"
    by (simp add: renewMessageLock_def call_timeout_def)
  from renew_loop_result [OF this] obtain calls where
    calls: "decisions (events w') = decisions (events w) @ map (\<lambda>(c, a). EvSettle c a) calls"
    "list_all (\<lambda>ca. renewal_call ctx (call_timeout plr m w) (now w) (fst ca)) calls"
    "timeout_count w' = timeout_count w + length (filter (\<lambda>ca. timed_out (snd ca)) calls)"
    "renew_outcome ctx r calls m' w'" by blast
  have "r = None \<longrightarrow> calls \<noteq> [] \<and> snd (last calls) = None"
    using calls(4) by (auto simp: renew_outcome_None)
  with False calls show ?thesis by (intro exI [of _ calls]) auto
qed

text \<open>
  A broker whose first renewal of a message times out after five seconds and whose next succeeds, with
  the lock extended to a minute from then.
\<close>

definition slow_broker :: settler where
  "slow_broker = (\<lambda>_ w. if now w < seconds 5 then (Some DeadlineExceeded, nat (seconds 5)) else (None, 1))"

definition slow_relock :: relock where
  "slow_relock c w = (case c of
     RenewMessageLock ctx m opts \<Rightarrow>
       (if now w < seconds 5 then (case LockedUntil m of None \<Rightarrow> 0 | Some u \<Rightarrow> u) else now w + seconds 60)
   | _ \<Rightarrow> 0)"

theorem renew_message_lock_outcome_witness:
  "\<exists>r m' w' calls. renewMessageLock 3 (renew_config None) slow_broker slow_relock Background sample_message start_world
       = Some (r, m', w')
     \<and> decisions (events w') = map (\<lambda>(c, a). EvSettle c a) calls
     \<and> timeout_count w' = length (filter (\<lambda>ca. timed_out (snd ca)) calls)
     \<and> r = None \<and> LockedUntil m' = Some (seconds 65) \<and> calls \<noteq> [] \<and> snd (last calls) = None"
proof -
  obtain r m' w' where run: "renewMessageLock 3 (renew_config None) slow_broker slow_relock Background sample_message start_world
       = Some (r, m', w')" and res: "r = None" "LockedUntil m' = Some (seconds 65)"
    by (simp add: renewMessageLock_def renew_config_def numeral_3_eq_3 renew_once_def slow_broker_def slow_relock_def
        sample_message_def start_world_def lock_left_def Background_def WithTimeout_def ctx_Err_def ctx_done_at_def
        reached_def add_event_def seconds_def)
  have start: "decisions (events start_world) = []" "timeout_count start_world = 0"
    by (simp_all add: start_world_def timeout_count_def)
  from renew_message_lock_outcome [OF run] start res run show ?thesis by auto
qed

text \<open>
  C19. Renewing a lock returns, and in time. Hypotheses on the broker client: a timed-out call has taken time,
  a failed call leaves the lock's expiry alone, and a call ends at most \<open>slack\<close> after its context is done. Then
  \<open>renewMessageLock\<close> returns (one pass of the loop per nanosecond left on the lock is enough); at once when the message
  has no lock or an expired one, else no later than the lock's expiry plus the timeout of one call plus \<open>slack\<close>; and when the message context is done, at most
  \<open>slack\<close> after that.
\<close>

theorem renew_message_lock_returns:
  assumes "timeouts_take_time S" and "failure_keeps_lock S relock" and "honours_context slack S"
    and "nat (lock_left m w) < fuel"
  shows "\<exists>r m' w'. renewMessageLock fuel plr S relock ctx m w = Some (r, m', w')
     \<and> now w \<le> now w'
     \<and> (lock_left m w \<le> 0 \<longrightarrow> now w' = now w)
     \<and> (0 < lock_left m w \<longrightarrow> now w' \<le> now w + lock_left m w + call_timeout plr m w + int slack)
     \<and> (\<forall>d. ctx_done_at ctx = Some d \<longrightarrow> now w' \<le> max (now w) (d + int slack))"
proof (cases "0 < lock_left m w")
  case False
  with assms(4) show ?thesis by (cases fuel) (auto simp: renewMessageLock_def)
next
  case True
  then obtain u where u: "LockedUntil m = Some u" "u = now w + lock_left m w"
    by (auto simp: lock_left_def split: option.splits)
  from True have timeout: "0 \<le> call_timeout plr m w" by (simp add: call_timeout_def)
  have loop: "renewMessageLock fuel plr S relock ctx m w = renew_loop fuel (call_timeout plr m w) S relock ctx m w"
    using True u(1) by (simp add: renewMessageLock_def call_timeout_def)
  from renew_loop_enough_fuel [OF assms(1,2,4)] obtain r m' w'
    where run: "renew_loop fuel (call_timeout plr m w) S relock ctx m w = Some (r, m', w')" by (metis prod_cases3)
  from renew_loop_time [OF assms(2,3) timeout run u(1)] run loop True u(2) timeout show ?thesis by auto
qed

text \<open>A broker that never answers: each call lasts until its context is done.\<close>

definition hung_broker :: settler where
  "hung_broker c w = (case c of
     RenewMessageLock ctx m opts \<Rightarrow>
       (case ctx_done_at ctx of
          Some d \<Rightarrow> if now w < d then (Some DeadlineExceeded, nat (d - now w)) else (Some Canceled, 0)
        | None \<Rightarrow> (Some Canceled, 0))
   | _ \<Rightarrow> (Some Canceled, 0))"

definition same_relock :: relock where
  "same_relock c w = (case c of RenewMessageLock ctx m opts \<Rightarrow> (case LockedUntil m of None \<Rightarrow> 0 | Some u \<Rightarrow> u) | _ \<Rightarrow> 0)"

theorem renew_message_lock_returns_witness:
  "\<exists>r m' w'. renewMessageLock (Suc (nat (seconds 60))) (renew_config None) hung_broker same_relock Background
     sample_message start_world = Some (r, m', w') \<and> now w' \<le> seconds 65"
proof -
  have "timeouts_take_time hung_broker"
    by (auto simp: timeouts_take_time_def hung_broker_def split: settle_call.splits option.splits if_splits)
  moreover have "failure_keeps_lock hung_broker same_relock" by (simp add: failure_keeps_lock_def same_relock_def)
  moreover have "honours_context 0 hung_broker" by (auto simp: honours_context_def hung_broker_def)
  moreover have left: "lock_left sample_message start_world = seconds 60"
    by (simp add: lock_left_def sample_message_def start_world_def)
  ultimately show ?thesis
    using renew_message_lock_returns [of hung_broker same_relock 0 sample_message start_world "Suc (nat (seconds 60))"
        "renew_config None" Background]
    by (force simp: call_timeout_def renew_config_def start_world_def seconds_def)
qed

text \<open>
  The options as documented: each has its default (10 s, 5 s, true, the package's recorder) unless
  set; a renewal timeout of zero counts as not set, a negative one means the time left on the lock.
\<close>

lemma renew_options_documented:
  "renew_config None = \<lparr>renewalInterval = seconds 10, renewalTimeout = seconds 5, cancelMessageCtxOnStop = True,
     plr_metrics = None\<rparr>
   \<and> renewalInterval (renew_config (Some opts)) = (case Interval opts of None \<Rightarrow> seconds 10 | Some i \<Rightarrow> i)
   \<and> cancelMessageCtxOnStop (renew_config (Some opts)) = (CancelMessageContextOnStop opts \<noteq> Some False)
   \<and> plr_metrics (renew_config (Some opts)) = MetricRecorder opts
   \<and> call_timeout (renew_config (Some opts)) m w =
       (case LockRenewalTimeout opts of None \<Rightarrow> seconds 5
        | Some t \<Rightarrow> if t = 0 then seconds 5 else if t < 0 then lock_left m w else t)"
  by (auto simp: renew_config_def call_timeout_def seconds_def Let_def split: option.splits)

end
