(* ===== verification/RenewalRuns.thy ===== *)
theory RenewalRuns
  imports LockRenewer
begin

text \<open>
  Runs of the lock renewer: the handler and the renewal goroutine of \<^verbatim>\<open>v2/lockrenewer.go\<close> interleaved in
  every order. The stop signal is never lost, nothing is renewed after the flag \<open>alive\<close> is cleared
  (once the goroutine has started), an error that ends the renewing does so for good, the goroutine ends, the counters agree with what happened; and the one schedule on which \<open>stop\<close> blocks.
\<close>

section \<open>The steps, one case each\<close>

lemma stop_step_cases:
  assumes "stop_step plr pc s = Some (n, s')"
  obtains (clear) "pc = StAlive" "n = Some StLen" "s' = s\<lparr>alive := False\<rparr>"
  | (empty) "pc = StLen" "n = Some StSend" "stopped s = 0" "s' = s"
  | (full) "pc = StLen" "n = Some StCancel" "stopped s \<noteq> 0" "s' = s"
  | (send) "pc = StSend" "n = Some StCancel" "stopped s = 0" "s' = s\<lparr>stopped := 1\<rparr>"
  | (cancel) "pc = StCancel" "n = None" "alive s' = alive s" "stopped s' = stopped s" "hpc s' = hpc s" "rpc s' = rpc s"
      "rcount s' = rcount s" "metrics (rtrace s') = metrics (rtrace s)"
      "rctxErr s' = (if cancelMessageCtxOnStop plr \<and> rctxErr s = None then Some Canceled else rctxErr s)"
  using assms
  by (cases pc; cases "rctxErr s"; cases "cancelMessageCtxOnStop plr")
    (auto simp: stop_step_def rlog_def Let_def split: if_splits)

lemma renew_result_cases:
  assumes "renew_result m r s = Some s'"
  obtains (renewed) es where "rpc s = RRenewing" "r = None" "s' = s\<lparr>rtrace := rtrace s @ es, rpc := RTest\<rparr>"
      "metrics es = [IncMessageLockRenewedSuccess m]"
  | (ctx_error) e where "rpc s = RRenewing" "r = Some e" "is_ctx_error e" "s' = s\<lparr>rpc := RStopping StAlive\<rparr>"
  | (permanent) e es where "rpc s = RRenewing" "r = Some e" "\<not> is_ctx_error e" "isPermanent e"
      "s' = s\<lparr>rtrace := rtrace s @ es, rpc := RStopping StAlive\<rparr>" "metrics es = [IncMessageLockRenewedFailure m]"
  | (transient) e es where "rpc s = RRenewing" "r = Some e" "\<not> is_ctx_error e" "\<not> isPermanent e"
      "s' = s\<lparr>rtrace := rtrace s @ es, rpc := RTest\<rparr>" "metrics es = [IncMessageLockRenewedFailure m]"
  using assms
  by (cases r) (auto simp: renew_result_def rlog_def Let_def split: if_splits)

lemma renewer_step_cases:
  assumes "renewer_step plr s = Some s'"
  obtains (init) "rpc s = RInit" "s' = s\<lparr>alive := True, rpc := RTest\<rparr>"
  | (enter) "rpc s = RTest" "alive s" "s' = s\<lparr>rpc := RSelect\<rparr>"
  | (leave) "rpc s = RTest" "\<not> alive s" "s' = s\<lparr>rpc := RExit\<rparr>"
  | (tick) "rpc s = RTick" "alive s" "s' = s\<lparr>rcount := rcount s + 1, rpc := RRenewing\<rparr>"
  | (late) "rpc s = RTick" "\<not> alive s" "s' = s\<lparr>rpc := RExit\<rparr>"
  | (stop) pc n t where "rpc s = RStopping pc" "stop_step plr pc s = Some (n, t)"
      "s' = t\<lparr>rpc := (case n of None \<Rightarrow> RTest | Some pc' \<Rightarrow> RStopping pc')\<rparr>"
  | (signalled) es where "rpc s = RStopRecv" "s' = s\<lparr>alive := False, rtrace := rtrace s @ es, rpc := RTest\<rparr>" "metrics es = []"
proof (cases "rpc s")
  case RInit
  with assms show thesis by (intro init) (auto simp: renewer_step_def)
next
  case RTest
  with assms show thesis by (cases "alive s") (auto simp: renewer_step_def intro: enter leave)
next
  case RTick
  with assms show thesis by (cases "alive s") (auto simp: renewer_step_def intro: tick late)
next
  case (RStopping pc)
  with assms obtain n t where "stop_step plr pc s = Some (n, t)"
    "s' = t\<lparr>rpc := (case n of None \<Rightarrow> RTest | Some pc' \<Rightarrow> RStopping pc')\<rparr>"
    by (auto simp: renewer_step_def)
  with RStopping stop show thesis by blast
next
  case RStopRecv
  let ?es = "if alive s then [EvLog LInfo ''stop signal received: exiting periodic renewal'' []] else []"
  from RStopRecv assms have "s' = s\<lparr>alive := False, rtrace := rtrace s @ ?es, rpc := RTest\<rparr>"
    by (auto simp: renewer_step_def rlog_def)
  with RStopRecv show thesis by (intro signalled [of ?es]) auto
qed (use assms in \<open>simp_all add: renewer_step_def\<close>)

lemma rstep_cases:
  assumes "rstep plr m a s = Some s'"
  obtains (finish) "a = HandlerFinishes" "hpc s = HRunning" "s' = s\<lparr>hpc := HStopping StAlive\<rparr>"
  | (fail) "a = HandlerFails" "hpc s = HRunning" "s' = s\<lparr>hpc := HPanicked\<rparr>"
  | (handler) pc n t where "a = HStep" "hpc s = HStopping pc" "stop_step plr pc s = Some (n, t)"
      "s' = t\<lparr>hpc := (case n of None \<Rightarrow> HDone | Some pc' \<Rightarrow> HStopping pc')\<rparr>"
  | (renewer) "a = RStep" "renewer_step plr s = Some s'"
  | (timer) "a = RTimer" "rpc s = RSelect" "s' = s\<lparr>rpc := RTick\<rparr>"
  | (ctx_done) e es where "a = RCtxDone" "rpc s = RSelect" "rctxErr s = Some e"
      "s' = s\<lparr>rtrace := rtrace s @ es, rpc := RStopping StAlive\<rparr>"
      "metrics es = (if errors_Is is_deadline_exceeded e then [IncMessageDeadlineReachedCount m] else [])"
  | (signal) "a = RStopSignal" "rpc s = RSelect" "stopped s > 0" "s' = s\<lparr>stopped := stopped s - 1, rpc := RStopRecv\<rparr>"
  | (renewal) r where "a = RenewResult r" "renew_result m r s = Some s'"
  | (ctx_ends) e where "a = CtxEnds e" "rctxErr s = None" "e = Canceled \<or> e = DeadlineExceeded" "s' = s\<lparr>rctxErr := Some e\<rparr>"
proof (cases a)
  case HandlerFinishes
  with assms show thesis by (intro finish) (simp_all add: rstep_def split: if_splits)
next
  case HandlerFails
  with assms show thesis by (intro fail) (simp_all add: rstep_def split: if_splits)
next
  case HStep
  with assms obtain pc where pc: "hpc s = HStopping pc"
    by (cases "hpc s") (simp_all add: rstep_def handler_step_def)
  with assms HStep obtain n t where "stop_step plr pc s = Some (n, t)"
    "s' = t\<lparr>hpc := (case n of None \<Rightarrow> HDone | Some pc' \<Rightarrow> HStopping pc')\<rparr>"
    by (auto simp: rstep_def handler_step_def)
  with HStep pc handler show thesis by blast
next
  case RStep
  with assms show thesis by (intro renewer) (simp_all add: rstep_def)
next
  case RTimer
  with assms show thesis by (intro timer) (simp_all add: rstep_def split: if_splits)
next
  case RCtxDone
  with assms obtain e where e: "rctxErr s = Some e" "rpc s = RSelect"
    by (cases "rctxErr s") (simp_all add: rstep_def ctx_done_branch_def split: if_splits)
  let ?es = "[EvLog LInfo ''context done: stopping periodic renewal'' [],
      EvSpan (SpanAddEvent ''context done: stopping message lock renewal'' [])]
      @ (if errors_Is is_deadline_exceeded e then [EvSpan (SpanRecordError e), EvMetric (IncMessageDeadlineReachedCount m)] else [])"
  from e assms RCtxDone have "s' = s\<lparr>rtrace := rtrace s @ ?es, rpc := RStopping StAlive\<rparr>"
    by (simp add: rstep_def ctx_done_branch_def rlog_def Let_def split: if_splits)
  with e RCtxDone show thesis by (intro ctx_done [of e ?es]) simp_all
next
  case RStopSignal
  with assms show thesis by (intro signal) (simp_all add: rstep_def split: if_splits)
next
  case (RenewResult r)
  with assms show thesis by (intro renewal) (simp_all add: rstep_def)
next
  case (CtxEnds e)
  with assms show thesis by (intro ctx_ends [of e]) (auto simp: rstep_def split: if_splits)
qed

text \<open>
  Everything a step can do, with \<open>stop\<close> opened up on both sides: the rule the invariants below are
  proved by. Trace events only matter through the metrics they record.
\<close>

lemma rstep_flat:
  assumes "rstep plr m a s = Some s'"
  obtains (finish) "a = HandlerFinishes" "hpc s = HRunning" "s' = s\<lparr>hpc := HStopping StAlive\<rparr>"
  | (fail) "a = HandlerFails" "hpc s = HRunning" "s' = s\<lparr>hpc := HPanicked\<rparr>"
  | (h_clear) "a = HStep" "hpc s = HStopping StAlive" "s' = s\<lparr>alive := False, hpc := HStopping StLen\<rparr>"
  | (h_empty) "a = HStep" "hpc s = HStopping StLen" "stopped s = 0" "s' = s\<lparr>hpc := HStopping StSend\<rparr>"
  | (h_full) "a = HStep" "hpc s = HStopping StLen" "stopped s \<noteq> 0" "s' = s\<lparr>hpc := HStopping StCancel\<rparr>"
  | (h_send) "a = HStep" "hpc s = HStopping StSend" "stopped s = 0" "s' = s\<lparr>stopped := 1, hpc := HStopping StCancel\<rparr>"
  | (h_cancel) "a = HStep" "hpc s = HStopping StCancel" "alive s' = alive s" "stopped s' = stopped s" "hpc s' = HDone"
      "rpc s' = rpc s" "rcount s' = rcount s" "metrics (rtrace s') = metrics (rtrace s)"
      "rctxErr s' = (if cancelMessageCtxOnStop plr \<and> rctxErr s = None then Some Canceled else rctxErr s)"
  | (init) "a = RStep" "rpc s = RInit" "s' = s\<lparr>alive := True, rpc := RTest\<rparr>"
  | (enter) "a = RStep" "rpc s = RTest" "alive s" "s' = s\<lparr>rpc := RSelect\<rparr>"
  | (leave) "a = RStep" "rpc s = RTest" "\<not> alive s" "s' = s\<lparr>rpc := RExit\<rparr>"
  | (tick) "a = RStep" "rpc s = RTick" "alive s" "s' = s\<lparr>rcount := rcount s + 1, rpc := RRenewing\<rparr>"
  | (late) "a = RStep" "rpc s = RTick" "\<not> alive s" "s' = s\<lparr>rpc := RExit\<rparr>"
  | (r_clear) "a = RStep" "rpc s = RStopping StAlive" "s' = s\<lparr>alive := False, rpc := RStopping StLen\<rparr>"
  | (r_empty) "a = RStep" "rpc s = RStopping StLen" "stopped s = 0" "s' = s\<lparr>rpc := RStopping StSend\<rparr>"
  | (r_full) "a = RStep" "rpc s = RStopping StLen" "stopped s \<noteq> 0" "s' = s\<lparr>rpc := RStopping StCancel\<rparr>"
  | (r_send) "a = RStep" "rpc s = RStopping StSend" "stopped s = 0" "s' = s\<lparr>stopped := 1, rpc := RStopping StCancel\<rparr>"
  | (r_cancel) "a = RStep" "rpc s = RStopping StCancel" "alive s' = alive s" "stopped s' = stopped s" "hpc s' = hpc s"
      "rpc s' = RTest" "rcount s' = rcount s" "metrics (rtrace s') = metrics (rtrace s)"
      "rctxErr s' = (if cancelMessageCtxOnStop plr \<and> rctxErr s = None then Some Canceled else rctxErr s)"
  | (signalled) es where "a = RStep" "rpc s = RStopRecv" "s' = s\<lparr>alive := False, rtrace := rtrace s @ es, rpc := RTest\<rparr>"
      "metrics es = []"
  | (timer) "a = RTimer" "rpc s = RSelect" "s' = s\<lparr>rpc := RTick\<rparr>"
  | (ctx_done) e es where "a = RCtxDone" "rpc s = RSelect" "rctxErr s = Some e"
      "s' = s\<lparr>rtrace := rtrace s @ es, rpc := RStopping StAlive\<rparr>"
      "metrics es = (if errors_Is is_deadline_exceeded e then [IncMessageDeadlineReachedCount m] else [])"
  | (signal) "a = RStopSignal" "rpc s = RSelect" "stopped s > 0" "s' = s\<lparr>stopped := stopped s - 1, rpc := RStopRecv\<rparr>"
  | (renewed) es where "a = RenewResult None" "rpc s = RRenewing" "s' = s\<lparr>rtrace := rtrace s @ es, rpc := RTest\<rparr>"
      "metrics es = [IncMessageLockRenewedSuccess m]"
  | (ctx_error) e where "a = RenewResult (Some e)" "rpc s = RRenewing" "is_ctx_error e" "s' = s\<lparr>rpc := RStopping StAlive\<rparr>"
  | (permanent) e es where "a = RenewResult (Some e)" "rpc s = RRenewing" "\<not> is_ctx_error e" "isPermanent e"
      "s' = s\<lparr>rtrace := rtrace s @ es, rpc := RStopping StAlive\<rparr>" "metrics es = [IncMessageLockRenewedFailure m]"
  | (transient) e es where "a = RenewResult (Some e)" "rpc s = RRenewing" "\<not> is_ctx_error e" "\<not> isPermanent e"
      "s' = s\<lparr>rtrace := rtrace s @ es, rpc := RTest\<rparr>" "metrics es = [IncMessageLockRenewedFailure m]"
  | (ctx_ends) e where "a = CtxEnds e" "rctxErr s = None" "e = Canceled \<or> e = DeadlineExceeded" "s' = s\<lparr>rctxErr := Some e\<rparr>"
  using assms
proof (cases rule: rstep_cases)
  case (handler pc n t)
  from handler(3) show thesis
  proof (cases rule: stop_step_cases)
    case clear
    with handler show thesis by (intro h_clear) simp_all
  next
    case empty
    with handler show thesis by (intro h_empty) simp_all
  next
    case full
    with handler show thesis by (intro h_full) simp_all
  next
    case send
    with handler show thesis by (intro h_send) simp_all
  next
    case cancel
    with handler show thesis by (intro h_cancel) simp_all
  qed
next
  case renewer
  from renewer(2) show thesis
  proof (cases rule: renewer_step_cases)
    case (stop pc n t)
    from stop(2) show thesis
    proof (cases rule: stop_step_cases)
      case clear
      with renewer stop show thesis by (intro r_clear) simp_all
    next
      case empty
      with renewer stop show thesis by (intro r_empty) simp_all
    next
      case full
      with renewer stop show thesis by (intro r_full) simp_all
    next
      case send
      with renewer stop show thesis by (intro r_send) simp_all
    next
      case cancel
      with renewer stop show thesis by (intro r_cancel) simp_all
    qed
  qed (use renewer(1) init enter leave tick late signalled in blast)+
next
  case (renewal r)
  from renewal(2) show thesis
    by (cases rule: renew_result_cases) (use renewal(1) renewed ctx_error permanent transient in blast)+
qed (rule finish fail timer ctx_done signal ctx_ends; assumption)+

section \<open>The stop signal\<close>

text \<open>The handler is past the point of \<open>stop\<close> where the signal is sent or found already there.\<close>

definition handler_signalled :: "rstate \<Rightarrow> bool" where
  "handler_signalled s = (hpc s = HStopping StCancel \<or> hpc s = HDone)"

text \<open>The places of the renewal goroutine from which it may still come to wait in the \<open>select\<close>.\<close>

definition may_wait :: "rstate \<Rightarrow> bool" where
  "may_wait s = (rpc s \<in> {RInit, RSelect, RTick, RRenewing, RStopping StAlive, RStopping StLen}
     \<or> rpc s = RTest \<and> alive s)"

definition signal_inv :: "rstate \<Rightarrow> bool" where
  "signal_inv s \<longleftrightarrow> stopped s \<le> 1
     \<and> (rpc s \<in> {RStopping StLen, RStopping StSend, RStopping StCancel, RExit} \<longrightarrow> \<not> alive s)
     \<and> (may_wait s \<and> handler_signalled s \<longrightarrow> stopped s = 1)"

lemmas signal_defs = signal_inv_def may_wait_def handler_signalled_def

lemma signal_inv_step:
  assumes "signal_inv s" and "rstep plr m a s = Some s'"
  shows "signal_inv s'"
  using assms(2) by (cases rule: rstep_flat) (use assms(1) in \<open>auto simp: signal_defs\<close>)

interpretation signal: step_invariant "rstep plr m" init_rstate signal_inv for plr m
  by unfold_locales (simp add: signal_inv_def init_rstate_def handler_signalled_def, erule signal_inv_step)

section \<open>After the flag is cleared\<close>

fun renewer_action :: "raction \<Rightarrow> bool" where
  "renewer_action RStep = True"
| "renewer_action RTimer = True"
| "renewer_action RCtxDone = True"
| "renewer_action RStopSignal = True"
| "renewer_action (RenewResult r) = True"
| "renewer_action _ = False"

text \<open>How many actions the renewal goroutine has left at most once \<open>alive\<close> is false.\<close>

fun renewer_rank :: "renewer_pc \<Rightarrow> nat" where
  "renewer_rank RInit = 8"
| "renewer_rank RSelect = 7"
| "renewer_rank RRenewing = 6"
| "renewer_rank (RStopping StAlive) = 5"
| "renewer_rank (RStopping StLen) = 4"
| "renewer_rank (RStopping StSend) = 3"
| "renewer_rank (RStopping StCancel) = 2"
| "renewer_rank RStopRecv = 2"
| "renewer_rank RTick = 1"
| "renewer_rank RTest = 1"
| "renewer_rank RExit = 0"

lemma quiet_step:
  assumes "\<not> alive s" and "rpc s \<noteq> RInit" and "rstep plr m a s = Some s'"
  shows "\<not> alive s' \<and> rpc s' \<noteq> RInit \<and> rcount s' = rcount s
    \<and> renewer_rank (rpc s') + (if renewer_action a then 1 else 0) \<le> renewer_rank (rpc s)"
  using assms(3) by (cases rule: rstep_flat) (use assms(1,2) in auto)

lemma quiet_run:
  assumes "run (rstep plr m) as s = Some t" and "\<not> alive s" and "rpc s \<noteq> RInit"
  shows "\<not> alive t \<and> rpc t \<noteq> RInit \<and> rcount t = rcount s
    \<and> renewer_rank (rpc t) + length (filter renewer_action as) \<le> renewer_rank (rpc s)"
  using assms
proof (induction as arbitrary: s)
  case (Cons a as)
  then obtain u where u: "rstep plr m a s = Some u" "run (rstep plr m) as u = Some t"
    by (auto split: option.splits)
  with quiet_step [OF Cons.prems(2,3) u(1)] Cons.IH [of u] show ?case by (auto split: if_splits)
qed simp

lemma renewer_rank_le: "pc \<noteq> RInit \<Longrightarrow> renewer_rank pc \<le> 7"
  by (cases pc rule: renewer_rank.cases) simp_all

section \<open>Who fills the channel\<close>

text \<open>As long as the handler has not signalled, only the goroutine's own \<open>stop\<close> can have filled the channel.\<close>

definition sender_inv :: "rstate \<Rightarrow> bool" where
  "sender_inv s \<longleftrightarrow> signal_inv s
     \<and> (\<not> handler_signalled s \<and> stopped s \<noteq> 0
         \<longrightarrow> rpc s = RStopping StCancel \<or> rpc s \<in> {RTest, RExit} \<and> \<not> alive s)"

lemma sender_inv_step:
  assumes "sender_inv s" and "rstep plr m a s = Some s'"
  shows "sender_inv s'"
proof -
  have "signal_inv s'" using assms by (auto simp: sender_inv_def intro: signal_inv_step)
  with assms(2) show ?thesis
    by (cases rule: rstep_flat) (use assms(1) in \<open>auto simp: sender_inv_def signal_defs\<close>)
qed

interpretation sender: step_invariant "rstep plr m" init_rstate sender_inv for plr m
  by unfold_locales
    (simp add: sender_inv_def signal_inv_def init_rstate_def handler_signalled_def, erule sender_inv_step)

section \<open>The counters\<close>

fun is_renewal_metric :: "recorder_call \<Rightarrow> bool" where
  "is_renewal_metric (IncMessageLockRenewedSuccess m) = True"
| "is_renewal_metric (IncMessageLockRenewedFailure m) = True"
| "is_renewal_metric _ = False"

fun is_deadline_metric :: "recorder_call \<Rightarrow> bool" where
  "is_deadline_metric (IncMessageDeadlineReachedCount m) = True"
| "is_deadline_metric _ = False"

definition metric_count :: "(recorder_call \<Rightarrow> bool) \<Rightarrow> rstate \<Rightarrow> nat" where
  "metric_count p s = length (filter p (metrics (rtrace s)))"

definition stopping_self :: "rstate \<Rightarrow> bool" where
  "stopping_self s = ((\<exists>pc. rpc s = RStopping pc) \<or> rpc s \<in> {RTest, RExit} \<and> \<not> alive s)"

definition counter_inv :: "rstate \<Rightarrow> bool" where
  "counter_inv s \<longleftrightarrow> signal_inv s
     \<and> metric_count is_renewal_metric s + (if rpc s = RRenewing then 1 else 0) \<le> rcount s
     \<and> metric_count is_deadline_metric s \<le> (if stopping_self s then 1 else 0)"

lemma counter_inv_step:
  assumes "counter_inv s" and "rstep plr m a s = Some s'"
  shows "counter_inv s'"
proof -
  have "signal_inv s'" using assms by (auto simp: counter_inv_def intro: signal_inv_step)
  with assms(2) show ?thesis
    by (cases rule: rstep_flat)
      (use assms(1) in \<open>auto simp: counter_inv_def metric_count_def stopping_self_def signal_inv_def split: if_splits\<close>)
qed

interpretation counters: step_invariant "rstep plr m" init_rstate counter_inv for plr m
  by unfold_locales
    (simp add: counter_inv_def signal_inv_def init_rstate_def handler_signalled_def metric_count_def,
      erule counter_inv_step)

section \<open>After a renewal that ends the renewing\<close>

text \<open>
  The goroutine is in its own \<open>stop\<close> or through it, with \<open>n\<close> actions left at most. With
  \<open>CancelMessageContextOnStop\<close> the message context is done once \<open>stop\<close> has returned.
\<close>

definition ending :: "peekLockRenewer \<Rightarrow> nat \<Rightarrow> nat \<Rightarrow> rstate \<Rightarrow> bool" where
  "ending plr k n s \<longleftrightarrow> rcount s = k \<and> renewer_rank (rpc s) \<le> n
     \<and> (rpc s = RStopping StAlive
         \<or> \<not> alive s \<and> ((\<exists>pc. rpc s = RStopping pc)
              \<or> rpc s \<in> {RTest, RExit} \<and> (cancelMessageCtxOnStop plr \<longrightarrow> rctxErr s \<noteq> None)))"

lemma ending_step:
  assumes "ending plr k n s" and "rstep plr m a s = Some s'"
  shows "ending plr k (if renewer_action a then n - 1 else n) s' \<and> (renewer_action a \<longrightarrow> 0 < n)"
  using assms(2) by (cases rule: rstep_flat) (use assms(1) in \<open>auto simp: ending_def\<close>)

lemma ending_run:
  assumes "run (rstep plr m) as s = Some t" and "ending plr k n s"
  shows "ending plr k n t \<and> length (filter renewer_action as) \<le> n"
  using assms
proof (induction as arbitrary: s n)
  case (Cons a as)
  then obtain u where u: "rstep plr m a s = Some u" "run (rstep plr m) as u = Some t"
    by (auto split: option.splits)
  from ending_step [OF Cons.prems(2) u(1)] Cons.IH [OF u(2)]
  have "ending plr k (if renewer_action a then n - 1 else n) t
      \<and> length (filter renewer_action as) \<le> (if renewer_action a then n - 1 else n) \<and> (renewer_action a \<longrightarrow> 0 < n)"
    by blast
  then show ?case by (auto simp: ending_def)
qed simp

lemma ending_moves:
  assumes "ending plr k n s" and "sender_inv s"
  shows "rpc s = RExit \<or> (\<exists>s'. rstep plr m RStep s = Some s') \<or> rpc s = RStopping StSend \<and> handler_signalled s"
proof (cases "rpc s")
  case (RStopping pc)
  with assms show ?thesis
    by (cases pc) (auto simp: rstep_def renewer_step_def stop_step_def sender_inv_def signal_defs Let_def)
qed (use assms(1) in \<open>auto simp: ending_def rstep_def renewer_step_def\<close>)

text \<open>Without that option only the parent ends the message context.\<close>

lemma context_left_alone:
  assumes "\<not> cancelMessageCtxOnStop plr"
  shows "run (rstep plr m) as s = Some t \<Longrightarrow> list_all (\<lambda>a. \<forall>e. a \<noteq> CtxEnds e) as \<Longrightarrow> rctxErr t = rctxErr s"
proof (induction as arbitrary: s)
  case (Cons a as)
  from Cons.prems(1) obtain u where u: "rstep plr m a s = Some u" "run (rstep plr m) as u = Some t"
    by (auto split: option.splits)
  from u(1) have "rctxErr u = rctxErr s"
    by (cases rule: rstep_flat) (use assms Cons.prems(2) in auto)
  with Cons u show ?case by simp
qed simp

section \<open>The goroutine can always finish\<close>

definition can_finish :: "peekLockRenewer \<Rightarrow> ReceivedMessage \<Rightarrow> nat \<Rightarrow> rstate \<Rightarrow> bool" where
  "can_finish plr m n s \<longleftrightarrow> (\<exists>as t. length as \<le> n \<and> list_all renewer_action as
     \<and> run (rstep plr m) as s = Some t \<and> rpc t = RExit)"

lemma can_finish_exit: "rpc s = RExit \<Longrightarrow> can_finish plr m n s"
  unfolding can_finish_def by (intro exI [of _ "[]"]) auto

lemma can_finish_step:
  assumes "rstep plr m a s = Some s'" and "renewer_action a" and "can_finish plr m n s'"
  shows "can_finish plr m (Suc n) s"
proof -
  from assms(3) obtain as t where "length as \<le> n" "list_all renewer_action as" "run (rstep plr m) as s' = Some t" "rpc t = RExit"
    by (auto simp: can_finish_def)
  with assms(1,2) show ?thesis unfolding can_finish_def by (intro exI [of _ "a # as"]) auto
qed

lemma can_finish_mono: "can_finish plr m n s \<Longrightarrow> n \<le> k \<Longrightarrow> can_finish plr m k s"
  unfolding can_finish_def by (meson order_trans)

lemma can_finish_test_dead: "rpc s = RTest \<Longrightarrow> \<not> alive s \<Longrightarrow> can_finish plr m (Suc 0) s"
  by (rule can_finish_step [of _ _ RStep]) (auto simp: rstep_def renewer_step_def intro: can_finish_exit)

lemma can_finish_recv: "rpc s = RStopRecv \<Longrightarrow> can_finish plr m 2 s"
  unfolding Suc_1 [symmetric]
  by (rule can_finish_step [of _ _ RStep]) (auto simp: rstep_def renewer_step_def rlog_def intro!: can_finish_test_dead split: if_splits)

lemma can_finish_select: "rpc s = RSelect \<Longrightarrow> stopped s = 1 \<Longrightarrow> can_finish plr m 3 s"
  unfolding eval_nat_numeral(3) [of num.One]
  by (rule can_finish_step [of _ _ RStopSignal]) (auto simp: rstep_def intro!: can_finish_recv)

lemma can_finish_test: "rpc s = RTest \<Longrightarrow> (alive s \<Longrightarrow> stopped s = 1) \<Longrightarrow> can_finish plr m 4 s"
proof (cases "alive s")
  case True
  assume "rpc s = RTest" "alive s \<Longrightarrow> stopped s = 1"
  with True have "can_finish plr m (Suc 3) s"
    by (intro can_finish_step [of _ _ RStep]) (auto simp: rstep_def renewer_step_def intro!: can_finish_select)
  then show ?thesis by simp
qed (auto dest: can_finish_test_dead intro: can_finish_mono)

lemma can_finish_cancel: "rpc s = RStopping StCancel \<Longrightarrow> \<not> alive s \<Longrightarrow> can_finish plr m 2 s"
  unfolding Suc_1 [symmetric]
  by (rule can_finish_step [of _ _ RStep])
    (auto simp: rstep_def renewer_step_def stop_step_def rlog_def Let_def intro!: can_finish_test_dead split: if_splits)

lemma can_finish_len: "rpc s = RStopping StLen \<Longrightarrow> \<not> alive s \<Longrightarrow> stopped s = 1 \<Longrightarrow> can_finish plr m 3 s"
  unfolding eval_nat_numeral(3) [of num.One]
  by (rule can_finish_step [of _ _ RStep])
    (auto simp: rstep_def renewer_step_def stop_step_def intro!: can_finish_cancel)

lemma can_finish_stop: "rpc s = RStopping StAlive \<Longrightarrow> stopped s = 1 \<Longrightarrow> can_finish plr m 4 s"
  using can_finish_step [of plr m RStep s _ 3]
  by (auto simp: rstep_def renewer_step_def stop_step_def can_finish_len)

lemma can_finish_renewing: "rpc s = RRenewing \<Longrightarrow> stopped s = 1 \<Longrightarrow> can_finish plr m 5 s"
  using can_finish_step [of plr m "RenewResult None" s _ 4]
  by (auto simp: rstep_def renew_result_def rlog_def can_finish_test)

lemma can_finish_tick:
  assumes "rpc s = RTick" and "stopped s = 1"
  shows "can_finish plr m 6 s"
proof (cases "alive s")
  case True
  with assms show ?thesis
    using can_finish_step [of plr m RStep s _ 5] by (auto simp: rstep_def renewer_step_def can_finish_renewing)
next
  case False
  with assms show ?thesis
    using can_finish_step [of plr m RStep s _ 5] by (auto simp: rstep_def renewer_step_def can_finish_exit)
qed

lemma can_finish_init: "rpc s = RInit \<Longrightarrow> stopped s = 1 \<Longrightarrow> can_finish plr m 5 s"
  using can_finish_step [of plr m RStep s _ 4] by (auto simp: rstep_def renewer_step_def can_finish_test)

section \<open>Properties\<close>

text \<open>The default configuration, and the runs the witnesses use.\<close>

abbreviation default_plr :: peekLockRenewer where
  "default_plr \<equiv> renew_config None"

lemmas rstep_eval = rstep_def handler_step_def renewer_step_def stop_step_def renew_result_def ctx_done_branch_def
  rlog_def Let_def init_rstate_def renew_config_def

text \<open>The handler finishes before the goroutine has run at all.\<close>

definition early_finish :: "raction list" where
  "early_finish = [HandlerFinishes, HStep, HStep, HStep, HStep, RStep, RStep]"

text \<open>The first renewal finds the lock lost.\<close>

definition lock_lost_run :: "raction list" where
  "lock_lost_run = [RStep, RStep, RTimer, RStep, RenewResult (Some (SBError CodeLockLost))]"

text \<open>
  C4. The stop signal is never lost. However handler and goroutine interleave, once the handler has
  returned from \<open>stop\<close>, a goroutine waiting in the \<open>select\<close> finds the signal in the channel, and from wherever it
  is (except its own send in \<open>stop\<close>) the goroutine can return within six of its own actions: even when
  the handler finished before the goroutine set \<open>alive\<close>.
\<close>

theorem stop_signal_not_lost:
  assumes "reachable (rstep plr m) init_rstate s" and "hpc s = HDone" and "rpc s \<noteq> RStopping StSend"
  shows "(rpc s = RSelect \<longrightarrow> stopped s = 1) \<and> can_finish plr m 6 s"
proof -
  from signal.inv_reachable [OF assms(1)] have inv: "signal_inv s" .
  with assms(2) have sel: "may_wait s \<Longrightarrow> stopped s = 1" by (auto simp: signal_defs)
  have "can_finish plr m 6 s"
  proof (cases "rpc s" rule: renewer_rank.cases)
    case 6
    with assms(3) show ?thesis by simp
  qed (use inv sel in \<open>auto simp: signal_inv_def may_wait_def
      intro: can_finish_exit can_finish_tick
        can_finish_mono [OF can_finish_init] can_finish_mono [OF can_finish_select] can_finish_mono [OF can_finish_renewing]
        can_finish_mono [OF can_finish_stop] can_finish_mono [OF can_finish_len] can_finish_mono [OF can_finish_cancel]
        can_finish_mono [OF can_finish_recv] can_finish_mono [OF can_finish_test]\<close>)
  with sel show ?thesis by (auto simp: may_wait_def)
qed

theorem stop_signal_not_lost_witness:
  "\<exists>s. run (rstep default_plr sample_message) early_finish init_rstate = Some s \<and> hpc s = HDone \<and> rpc s = RSelect
     \<and> alive s \<and> stopped s = 1 \<and> can_finish default_plr sample_message 6 s"
proof -
  obtain s where s: "run (rstep default_plr sample_message) early_finish init_rstate = Some s" "hpc s = HDone"
    "rpc s = RSelect" "alive s"
    by (simp add: early_finish_def rstep_eval)
  with stop_signal_not_lost [OF run_reachable, OF s(1)] show ?thesis by auto
qed

text \<open>
  C20. From any state in which the goroutine has executed its first statement (the store that sets \<open>alive\<close>) and the flag
  \<open>alive\<close> is cleared, no renewal is begun any more, the flag stays cleared, and the goroutine takes at most
  seven more actions, whatever else happens. (A handler that stops earlier than that has its clearing of the flag
  overwritten; there only the signal in the channel ends the renewing, and the timer may come first.)
\<close>

theorem no_renewal_after_stop:
  assumes "run (rstep plr m) as s = Some t" and "\<not> alive s" and "rpc s \<noteq> RInit"
  shows "rcount t = rcount s \<and> \<not> alive t \<and> length (filter renewer_action as) \<le> 7"
  using quiet_run [OF assms] renewer_rank_le [OF assms(3)] by auto

theorem no_renewal_after_stop_witness:
  "\<exists>s t. run (rstep default_plr sample_message) [RStep, RStep, HandlerFinishes, HStep] init_rstate = Some s
     \<and> run (rstep default_plr sample_message) [RTimer, HStep, RStep] s = Some t \<and> rcount t = rcount s \<and> rpc t = RExit"
proof -
  obtain s t where s: "run (rstep default_plr sample_message) [RStep, RStep, HandlerFinishes, HStep] init_rstate = Some s"
    "\<not> alive s" "rpc s \<noteq> RInit" and t: "run (rstep default_plr sample_message) [RTimer, HStep, RStep] s = Some t" "rpc t = RExit"
    by (simp add: rstep_eval)
  with no_renewal_after_stop [OF t(1) s(2,3)] show ?thesis by auto
qed

text \<open>
  C9. A renewal that fails for good (the lock is lost, access is denied) or with a context error is the
  last one: no other is begun, and the goroutine takes at most five more actions, those of its own \<open>stop\<close> and the
  loop test. Until it has returned it can always take the next of them, unless it is at the send in \<open>stop\<close> and the
  handler has put its own signal in the channel. When the option \<open>CancelMessageContextOnStop\<close> is set, the message context is done by
  the time the goroutine has returned, so a running handler learns of it; when it is not, no step of the handler's
  \<open>stop\<close> or of the goroutine ends the context.
\<close>

theorem lost_lock_ends_renewing:
  assumes "reachable (rstep plr m) init_rstate s" and "is_ctx_error e \<or> isPermanent e"
    and "rstep plr m (RenewResult (Some e)) s = Some s'" and "run (rstep plr m) as s' = Some t"
  shows "rcount t = rcount s \<and> length (filter renewer_action as) \<le> 5
     \<and> (rpc t = RExit \<or> (\<exists>t'. rstep plr m RStep t = Some t') \<or> rpc t = RStopping StSend \<and> handler_signalled t)
     \<and> (cancelMessageCtxOnStop plr \<and> rpc t = RExit \<longrightarrow> rctxErr t \<noteq> None)
     \<and> (\<not> cancelMessageCtxOnStop plr \<and> list_all (\<lambda>a. \<forall>e'. a \<noteq> CtxEnds e') as \<longrightarrow> rctxErr t = rctxErr s)"
proof -
  from assms(3) have "ending plr (rcount s) 5 s' \<and> rctxErr s' = rctxErr s"
    by (cases rule: rstep_flat) (use assms(2) in \<open>auto simp: ending_def\<close>)
  moreover from this ending_run [OF assms(4)]
  have end_t: "ending plr (rcount s) 5 t" "length (filter renewer_action as) \<le> 5" by blast+
  have "sender_inv t"
    by (rule sender.inv_reachable) (rule reachable_run_from [OF assms(4) reach_step [OF assms(1,3)]])
  from end_t(1) ending_moves [OF end_t(1) this] end_t(2) context_left_alone [OF _ assms(4)] calculation
  show ?thesis by (auto simp: ending_def)
qed

text \<open>The lock is found lost, with the option on (the default) and off.\<close>

theorem lost_lock_ends_renewing_witness:
  "list_all (\<lambda>plr. \<exists>s s' t. run (rstep plr sample_message) [RStep, RStep, RTimer, RStep] init_rstate = Some s
     \<and> rstep plr sample_message (RenewResult (Some (SBError CodeLockLost))) s = Some s'
     \<and> run (rstep plr sample_message) [RStep, RStep, RStep, RStep, RStep] s' = Some t
     \<and> rcount t = rcount s \<and> rpc t = RExit \<and> (rctxErr t \<noteq> None \<longleftrightarrow> cancelMessageCtxOnStop plr))
   [default_plr, default_plr\<lparr>cancelMessageCtxOnStop := False\<rparr>]"
proof -
  have "\<exists>s s' t. run (rstep plr sample_message) [RStep, RStep, RTimer, RStep] init_rstate = Some s
     \<and> rstep plr sample_message (RenewResult (Some (SBError CodeLockLost))) s = Some s'
     \<and> run (rstep plr sample_message) [RStep, RStep, RStep, RStep, RStep] s' = Some t
     \<and> rcount t = rcount s \<and> rpc t = RExit \<and> (rctxErr t \<noteq> None \<longleftrightarrow> cancelMessageCtxOnStop plr)" for plr
  proof -
    obtain s s' t where s: "run (rstep plr sample_message) [RStep, RStep, RTimer, RStep] init_rstate = Some s" "rctxErr s = None"
      and s': "rstep plr sample_message (RenewResult (Some (SBError CodeLockLost))) s = Some s'"
      and t: "run (rstep plr sample_message) [RStep, RStep, RStep, RStep, RStep] s' = Some t" "rpc t = RExit"
      by (cases "cancelMessageCtxOnStop plr") (simp_all add: rstep_eval is_ctx_error_def isPermanent_def)
    have "is_ctx_error (SBError CodeLockLost) \<or> isPermanent (SBError CodeLockLost)"
      by (simp add: isPermanent_def)
    from lost_lock_ends_renewing [OF run_reachable [OF s(1)] this s' t(1)] s s' t show ?thesis by auto
  qed
  then show ?thesis by (simp only: list.pred_inject simp_thms)
qed

text \<open>
  C21. The handler's \<open>stop\<close> is held up only at the send, and only when the goroutine has stopped itself: it
  has already filled the channel and cleared \<open>alive\<close>, and is on its way out or gone.
\<close>

theorem stop_blocked_only_by_renewer_stop:
  assumes "reachable (rstep plr m) init_rstate s" and "hpc s = HStopping pc" and "rstep plr m HStep s = None"
  shows "pc = StSend \<and> stopped s = 1 \<and> \<not> alive s \<and> rpc s \<in> {RStopping StCancel, RTest, RExit}"
proof -
  from sender.inv_reachable [OF assms(1)] have inv: "sender_inv s" .
  from assms(2,3) have "pc = StSend" "stopped s \<noteq> 0"
    by (auto simp: rstep_def handler_step_def stop_step_def Let_def split: stop_pc.splits if_splits)
  with inv assms(2) show ?thesis by (auto simp: sender_inv_def signal_defs)
qed

theorem stop_blocked_only_by_renewer_stop_witness:
  "\<exists>s. run (rstep default_plr sample_message)
       (lock_lost_run @ [RStep, RStep, HandlerFinishes, HStep, HStep, RStep]) init_rstate = Some s
     \<and> hpc s = HStopping StSend \<and> rstep default_plr sample_message HStep s = None
     \<and> stopped s = 1 \<and> \<not> alive s \<and> rpc s \<in> {RStopping StCancel, RTest, RExit}"
proof -
  obtain s where s: "run (rstep default_plr sample_message)
       (lock_lost_run @ [RStep, RStep, HandlerFinishes, HStep, HStep, RStep]) init_rstate = Some s"
    "hpc s = HStopping StSend" "rstep default_plr sample_message HStep s = None"
    by (simp add: lock_lost_run_def rstep_eval is_ctx_error_def isPermanent_def)
  with stop_blocked_only_by_renewer_stop [OF run_reachable, OF s] show ?thesis by auto
qed

text \<open>
  C22. That can hold up the handler for good: \<open>stop\<close> tests the length of the channel and then sends, and when
  the goroutine stops itself between the handler's test and its send, the handler blocks in the send
  with nobody left to receive. In every state reachable from there it is still blocked.
\<close>

theorem stop_can_block_forever:
  "\<exists>as s. run (rstep plr m) as init_rstate = Some s \<and> rpc s = RExit
     \<and> {t. reachable (rstep plr m) s t} \<subseteq> {t. hpc t = HStopping StSend \<and> rstep plr m HStep t = None}"
proof -
  let ?as = "lock_lost_run @ [RStep, RStep, HandlerFinishes, HStep, HStep, RStep, RStep, RStep]"
  obtain s where s: "run (rstep plr m) ?as init_rstate = Some s" "rpc s = RExit" "hpc s = HStopping StSend" "stopped s = 1"
    by (cases "cancelMessageCtxOnStop plr")
      (simp_all add: lock_lost_run_def rstep_def handler_step_def renewer_step_def stop_step_def renew_result_def
        rlog_def Let_def init_rstate_def is_ctx_error_def isPermanent_def)
  have "hpc t = HStopping StSend \<and> stopped t = 1 \<and> rpc t = RExit" if "reachable (rstep plr m) s t" for t
    using that
  proof (induction rule: reachable.induct)
    case reach_start
    from s show ?case by simp
  next
    case (reach_step u a t)
    from reach_step.hyps(2) show ?case by (cases rule: rstep_flat) (use reach_step.IH in auto)
  qed
  then have "hpc t = HStopping StSend \<and> rstep plr m HStep t = None" if "reachable (rstep plr m) s t" for t
    using that by (simp add: rstep_def handler_step_def stop_step_def)
  with s show ?thesis by blast
qed

text \<open>
  C40. The counters of one message: the renewals counted as succeeded or failed are at most those begun,
  and the deadline is counted at most once.
\<close>

theorem renewal_counters_bounded:
  assumes "reachable (rstep plr m) init_rstate s"
  shows "metric_count is_renewal_metric s \<le> rcount s \<and> metric_count is_deadline_metric s \<le> 1"
  using counters.inv_reachable [OF assms] by (auto simp: counter_inv_def split: if_splits)

theorem renewal_counters_bounded_witness:
  "\<exists>s. run (rstep default_plr sample_message) (lock_lost_run @ [RStep]) init_rstate = Some s
     \<and> metric_count is_renewal_metric s = 1 \<and> metric_count is_renewal_metric s \<le> rcount s \<and> metric_count is_deadline_metric s \<le> 1"
proof -
  obtain s where s: "run (rstep default_plr sample_message) (lock_lost_run @ [RStep]) init_rstate = Some s"
    "metric_count is_renewal_metric s = 1"
    by (simp add: lock_lost_run_def rstep_eval is_ctx_error_def isPermanent_def metric_count_def)
  with renewal_counters_bounded [OF run_reachable, OF s(1)] show ?thesis by auto
qed

end
