(* ===== verification/Marshaller.thy ===== *)
theory Marshaller
  imports Runtime
begin

text \<open>
  \<^verbatim>\<open>v2/marshaller.go\<close> and the outgoing message. Package \<open>encoding/json\<close> and the protobuf library are
  parameters: their encoders and decoders are arguments of the definitions that call them.
\<close>

section \<open>Outgoing messages and bodies\<close>

type_synonym bytes = "8 word list"

record Message =
  Body :: bytes
  ContentType :: "string option"
  AppProperties :: properties
  OutMessageID :: "string option"
  OutCorrelationID :: "string option"
  OutScheduledEnqueueTime :: "instant option"
  OutTimeToLive :: "duration option"
  Subject :: "string option"
  SendTo :: "string option"

text \<open>\<open>&azservicebus.Message{Body: b, ContentType: &ct}\<close>: every other field has its zero value.\<close>

definition new_message :: "bytes \<Rightarrow> string \<Rightarrow> Message" where
  "new_message b ct = \<lparr>Body = b, ContentType = Some ct, AppProperties = None, OutMessageID = None, OutCorrelationID = None,
     OutScheduledEnqueueTime = None, OutTimeToLive = None, Subject = None, SendTo = None\<rparr>"

text \<open>
  A value of type \<open>any\<close> as the code can tell it apart: the nil interface, a value that is not a pointer
  with the name of its type, a pointer with the name of the type it points to, a nil pointer. The
  number identifies the value.
\<close>

datatype MessageBody = NilBody | ValueBody string nat | PointerBody string nat | NilPointerBody string

section \<open>The marshallers\<close>

text \<open>
  \<open>Marshaller\<close>: an implementation may return a nil message without an error, and may panic.
  \<open>Unmarshal\<close> fills its second argument; the model returns the filled value.
\<close>

record Marshaller =
  Marshal :: "MessageBody \<Rightarrow> (err + Message option) outcome"
  Unmarshal :: "Message \<Rightarrow> MessageBody \<Rightarrow> (err + MessageBody) outcome"
  MarContentType :: string

definition jsonContentType :: string where
  "jsonContentType = ''application/json''"

definition protobufContentType :: string where
  "protobufContentType = ''application/x-protobuf''"

type_synonym encoder = "MessageBody \<Rightarrow> err + bytes"
type_synonym decoder = "bytes \<Rightarrow> MessageBody \<Rightarrow> err + MessageBody"

definition json_Marshal :: "encoder \<Rightarrow> MessageBody \<Rightarrow> (err + Message option) outcome" where
  "json_Marshal enc mb = (case enc mb of
     Inl e \<Rightarrow> Returned (Inl e)
   | Inr str \<Rightarrow> Returned (Inr (Some (new_message str jsonContentType))))"

definition json_Unmarshal :: "decoder \<Rightarrow> Message \<Rightarrow> MessageBody \<Rightarrow> (err + MessageBody) outcome" where
  "json_Unmarshal dec msg mb = Returned (dec (Body msg) mb)"

definition DefaultJSONMarshaller :: "encoder \<Rightarrow> decoder \<Rightarrow> Marshaller" where
  "DefaultJSONMarshaller enc dec =
     \<lparr>Marshal = json_Marshal enc, Unmarshal = json_Unmarshal dec, MarContentType = jsonContentType\<rparr>"

text \<open>\<open>is_proto\<close> is the type assertion \<open>mb.(proto.Message)\<close>.\<close>

definition proto_Marshal :: "(MessageBody \<Rightarrow> bool) \<Rightarrow> encoder \<Rightarrow> MessageBody \<Rightarrow> (err + Message option) outcome" where
  "proto_Marshal is_proto enc mb =
     (if \<not> is_proto mb then Returned (Inl (NewError ''message must be a protobuf message''))
      else case enc mb of
        Inl e \<Rightarrow> Returned (Inl e)
      | Inr data \<Rightarrow> Returned (Inr (Some (new_message data protobufContentType))))"

definition proto_Unmarshal :: "(MessageBody \<Rightarrow> bool) \<Rightarrow> decoder \<Rightarrow> Message \<Rightarrow> MessageBody \<Rightarrow> (err + MessageBody) outcome" where
  "proto_Unmarshal is_proto dec msg mb =
     (if \<not> is_proto mb then Returned (Inl (NewError ''message body must be a protobuf message''))
      else Returned (dec (Body msg) mb))"

definition DefaultProtoMarshaller :: "(MessageBody \<Rightarrow> bool) \<Rightarrow> encoder \<Rightarrow> decoder \<Rightarrow> Marshaller" where
  "DefaultProtoMarshaller is_proto enc dec =
     \<lparr>Marshal = proto_Marshal is_proto enc, Unmarshal = proto_Unmarshal is_proto dec, MarContentType = protobufContentType\<rparr>"

section \<open>The contract of a marshaller\<close>

text \<open>
  What the sender and the receiving application rely on: a marshaller that returns does so with a message (not nil),
  labels it with its content type and leaves the other fields alone, and decodes from the
  body alone.
\<close>

locale marshaller =
  fixes mar :: Marshaller
  assumes marshal_message: "Marshal mar mb = Returned (Inr om) \<Longrightarrow> \<exists>b. om = Some (new_message b (MarContentType mar))"
    and marshal_returns: "\<exists>r. Marshal mar mb = Returned r"
    and unmarshal_body: "Body msg = Body msg' \<Longrightarrow> Unmarshal mar msg mb = Unmarshal mar msg' mb"
begin

lemma marshal_cases:
  obtains (failed) e where "Marshal mar mb = Returned (Inl e)"
  | (message) b where "Marshal mar mb = Returned (Inr (Some (new_message b (MarContentType mar))))"
proof -
  obtain r where r: "Marshal mar mb = Returned r" using marshal_returns by blast
  show thesis
  proof (cases r)
    case (Inl e)
    with r failed show thesis by simp
  next
    case (Inr om)
    with r marshal_message message show thesis by blast
  qed
qed

end

interpretation json: marshaller "DefaultJSONMarshaller enc dec" for enc dec
  by unfold_locales
    (auto simp: DefaultJSONMarshaller_def json_Marshal_def json_Unmarshal_def split: sum.splits)

interpretation protobuf: marshaller "DefaultProtoMarshaller is_proto enc dec" for is_proto enc dec
  by unfold_locales
    (auto simp: DefaultProtoMarshaller_def proto_Marshal_def proto_Unmarshal_def split: sum.splits if_splits)

end
