(* ===== verification/Otel.thy ===== *)
theory Otel
  imports Marshaller
begin

text \<open>
  \<^verbatim>\<open>v2/otel/otel.go\<close>: messages as carriers of the trace context, injecting it on the way out, extracting it
  on the way in, and the span attributes of a received message. The W3C propagator of the
  OpenTelemetry library is a parameter: for injecting, the keys and values it sets on the carrier;
  for extracting, a program that asks the carrier for keys and ends with a context.
\<close>

section \<open>Carriers\<close>

text \<open>\<open>receivedMessageWrapper\<close> and \<open>messageWrapper\<close> differ only in the message type; both work on its property map.\<close>

definition props_Set :: "string \<Rightarrow> string \<Rightarrow> properties \<Rightarrow> properties" where
  "props_Set key value ps = (let m = (case ps of None \<Rightarrow> Map.empty | Some m \<Rightarrow> m) in Some (m(key \<mapsto> PStr value)))"

definition type_assertion_panic :: panic_value where
  "type_assertion_panic = RuntimeError ''interface conversion: interface {} is not string''"

text \<open>Reading a key that is not in the map gives nil, as does a nil map.\<close>

definition props_Get :: "string \<Rightarrow> properties \<Rightarrow> string outcome" where
  "props_Get key ps = (case ps of
     None \<Rightarrow> Returned []
   | Some m \<Rightarrow> (case m key of
       None \<Rightarrow> Returned []
     | Some PNil \<Rightarrow> Returned []
     | Some (PStr s) \<Rightarrow> Returned s
     | Some (POther n) \<Rightarrow> Panicked type_assertion_panic))"

text \<open>\<open>Keys\<close> lists the keys in an order Go leaves open: the model gives the set.\<close>

definition props_Keys :: "properties \<Rightarrow> string set" where
  "props_Keys ps = (case ps of None \<Rightarrow> {} | Some m \<Rightarrow> dom m)"

definition messageWrapper_Set :: "string \<Rightarrow> string \<Rightarrow> Message \<Rightarrow> Message" where
  "messageWrapper_Set key value msg = msg\<lparr>AppProperties := props_Set key value (AppProperties msg)\<rparr>"

definition messageWrapper_Get :: "string \<Rightarrow> Message \<Rightarrow> string outcome" where
  "messageWrapper_Get key msg = props_Get key (AppProperties msg)"

definition messageWrapper_Keys :: "Message \<Rightarrow> string set" where
  "messageWrapper_Keys msg = props_Keys (AppProperties msg)"

definition receivedMessageWrapper_Set :: "string \<Rightarrow> string \<Rightarrow> ReceivedMessage \<Rightarrow> ReceivedMessage" where
  "receivedMessageWrapper_Set key value msg = msg\<lparr>ApplicationProperties := props_Set key value (ApplicationProperties msg)\<rparr>"

definition receivedMessageWrapper_Get :: "string \<Rightarrow> ReceivedMessage \<Rightarrow> string outcome" where
  "receivedMessageWrapper_Get key msg = props_Get key (ApplicationProperties msg)"

definition receivedMessageWrapper_Keys :: "ReceivedMessage \<Rightarrow> string set" where
  "receivedMessageWrapper_Keys msg = props_Keys (ApplicationProperties msg)"

section \<open>Inject and Extract\<close>

type_synonym injector = "Context \<Rightarrow> (string \<times> string) list"

definition Inject :: "injector \<Rightarrow> Context \<Rightarrow> Message \<Rightarrow> Message" where
  "Inject pgt ctx msg = fold (\<lambda>(k, v). messageWrapper_Set k v) (pgt ctx) msg"

datatype reader = Finish Context | Ask string "string \<Rightarrow> reader"

type_synonym extractor = "Context \<Rightarrow> reader"

primrec run_reader :: "reader \<Rightarrow> (string \<Rightarrow> string outcome) \<Rightarrow> Context outcome" where
  "run_reader (Finish c) get = Returned c"
| "run_reader (Ask k r) get = (case get k of Returned v \<Rightarrow> run_reader (r v) get | Panicked p \<Rightarrow> Panicked p)"

definition getRemoteParentSpan :: "extractor \<Rightarrow> Context \<Rightarrow> ReceivedMessage \<Rightarrow> (Context \<times> nat option) outcome" where
  "getRemoteParentSpan ext ctx message =
     (case run_reader (ext ctx) (\<lambda>k. receivedMessageWrapper_Get k message) of
        Returned c \<Rightarrow> Returned (c, ctx_span c)
      | Panicked p \<Rightarrow> Panicked p)"

definition Extract :: "extractor \<Rightarrow> Context \<Rightarrow> ReceivedMessage option \<Rightarrow> Context outcome" where
  "Extract ext ctx message = (case message of
     None \<Rightarrow> Returned ctx
   | Some m \<Rightarrow> (case getRemoteParentSpan ext ctx m of Returned (c, _) \<Rightarrow> Returned c | Panicked p \<Rightarrow> Panicked p))"

section \<open>Span attributes\<close>

definition MessageAttributes :: "ReceivedMessage option \<Rightarrow> (string \<times> log_arg) list" where
  "MessageAttributes message = (case message of
     None \<Rightarrow> []
   | Some m \<Rightarrow>
      [(''message.id'', AStr (MessageID m))]
      @ (case CorrelationID m of None \<Rightarrow> [] | Some c \<Rightarrow> [(''message.correlationId'', AStr c)])
      @ (case ScheduledEnqueueTime m of None \<Rightarrow> [] | Some t \<Rightarrow> [(''message.scheduledEnqueuedTime'', ATime (Some t))])
      @ (case TimeToLive m of None \<Rightarrow> [] | Some d \<Rightarrow> [(''message.ttl'', ADur d)]))"

section \<open>The contract of a carrier\<close>

text \<open>What a propagator relies on: a key reads back as it was set, other keys and the key set are otherwise unchanged.\<close>

locale text_map_carrier =
  fixes cset :: "string \<Rightarrow> string \<Rightarrow> 'm \<Rightarrow> 'm"
    and cget :: "string \<Rightarrow> 'm \<Rightarrow> string outcome"
    and ckeys :: "'m \<Rightarrow> string set"
  assumes get_set: "cget k (cset k v m) = Returned v"
    and get_set_other: "k \<noteq> k' \<Longrightarrow> cget k (cset k' v m) = cget k m"
    and keys_set: "ckeys (cset k v m) = insert k (ckeys m)"
    and get_absent: "k \<notin> ckeys m \<Longrightarrow> cget k m = Returned []"
begin

definition set_all :: "(string \<times> string) list \<Rightarrow> 'm \<Rightarrow> 'm" where
  "set_all kvs m = fold (\<lambda>(k, v). cset k v) kvs m"

lemma set_all_snoc: "set_all (kvs @ [(k, v)]) m = cset k v (set_all kvs m)"
  by (simp add: set_all_def)

lemma get_set_all:
  "cget k (set_all kvs m) = (case map_of (rev kvs) k of Some v \<Rightarrow> Returned v | None \<Rightarrow> cget k m)"
proof (induction kvs rule: rev_induct)
  case Nil
  show ?case by (simp add: set_all_def)
next
  case (snoc kv kvs)
  then show ?case by (cases kv) (auto simp: set_all_snoc get_set get_set_other)
qed

lemma keys_set_all: "ckeys (set_all kvs m) = fst ` set kvs \<union> ckeys m"
proof (induction kvs rule: rev_induct)
  case Nil
  show ?case by (simp add: set_all_def)
next
  case (snoc kv kvs)
  then show ?case by (cases kv) (auto simp: set_all_snoc keys_set)
qed

end

lemma props_get_set: "props_Get k (props_Set k v ps) = Returned v"
  by (simp add: props_Get_def props_Set_def Let_def)

lemma props_get_set_other: "k \<noteq> k' \<Longrightarrow> props_Get k (props_Set k' v ps) = props_Get k ps"
  by (auto simp: props_Get_def props_Set_def Let_def split: option.splits)

lemma props_keys_set: "props_Keys (props_Set k v ps) = insert k (props_Keys ps)"
  by (auto simp: props_Keys_def props_Set_def Let_def split: option.splits)

lemma props_get_absent: "k \<notin> props_Keys ps \<Longrightarrow> props_Get k ps = Returned []"
  by (auto simp: props_Get_def props_Keys_def dom_def split: option.splits)

interpretation out_carrier: text_map_carrier messageWrapper_Set messageWrapper_Get messageWrapper_Keys
  by unfold_locales
    (simp_all add: messageWrapper_Set_def messageWrapper_Get_def messageWrapper_Keys_def
      props_get_set props_get_set_other props_keys_set props_get_absent)

interpretation in_carrier: text_map_carrier receivedMessageWrapper_Set receivedMessageWrapper_Get receivedMessageWrapper_Keys
  by unfold_locales
    (simp_all add: receivedMessageWrapper_Set_def receivedMessageWrapper_Get_def receivedMessageWrapper_Keys_def
      props_get_set props_get_set_other props_keys_set props_get_absent)

section \<open>Lemmas\<close>

lemma Inject_set_all: "Inject pgt ctx msg = out_carrier.set_all (pgt ctx) msg"
  by (simp add: Inject_def out_carrier.set_all_def)

lemma set_all_frame:
  "Body (fold (\<lambda>(k, v). messageWrapper_Set k v) kvs msg) = Body msg"
  "ContentType (fold (\<lambda>(k, v). messageWrapper_Set k v) kvs msg) = ContentType msg"
  by (induction kvs arbitrary: msg) (auto simp: messageWrapper_Set_def)

lemma Inject_Body [simp]: "Body (Inject pgt ctx msg) = Body msg"
  and Inject_ContentType [simp]: "ContentType (Inject pgt ctx msg) = ContentType msg"
  by (simp_all add: Inject_def set_all_frame)

lemma run_reader_cong:
  "(\<And>k. get k = get' k) \<Longrightarrow> run_reader r get = run_reader r get'"
  by (induction r) (auto split: outcome.splits)

lemma run_reader_total:
  "(\<And>k. \<exists>v. get k = Returned v) \<Longrightarrow> \<exists>c. run_reader r get = Returned c"
proof (induction r)
  case (Ask k f)
  then obtain v where "get k = Returned v" by blast
  with Ask show ?case by auto
qed simp

section \<open>Properties\<close>

text \<open>
  C34. The trace context crosses the bus. What a propagator reads from a received message that carries the
  properties of the sent one is, for every key, what the sender's propagator set last under it, or what the
  message had before for a key it did not set; so extraction runs on exactly the injected
  keys and values. The payload is not touched.
\<close>

theorem trace_context_round_trip:
  assumes "ApplicationProperties m = AppProperties (Inject pgt sctx msg)"
  shows "Extract ext ctx (Some m) = run_reader (ext ctx)
      (\<lambda>k. case map_of (rev (pgt sctx)) k of Some v \<Rightarrow> Returned v | None \<Rightarrow> messageWrapper_Get k msg)
    \<and> messageWrapper_Keys (Inject pgt sctx msg) = fst ` set (pgt sctx) \<union> messageWrapper_Keys msg
    \<and> Body (Inject pgt sctx msg) = Body msg"
proof -
  have "receivedMessageWrapper_Get k m
      = (case map_of (rev (pgt sctx)) k of Some v \<Rightarrow> Returned v | None \<Rightarrow> messageWrapper_Get k msg)" for k
    using assms out_carrier.get_set_all [of k "pgt sctx" msg]
    by (simp add: receivedMessageWrapper_Get_def messageWrapper_Get_def Inject_set_all)
  then have "run_reader (ext ctx) (\<lambda>k. receivedMessageWrapper_Get k m) = run_reader (ext ctx)
      (\<lambda>k. case map_of (rev (pgt sctx)) k of Some v \<Rightarrow> Returned v | None \<Rightarrow> messageWrapper_Get k msg)"
    by (rule run_reader_cong)
  moreover have "Extract ext ctx (Some m) = run_reader (ext ctx) (\<lambda>k. receivedMessageWrapper_Get k m)"
    by (simp add: Extract_def getRemoteParentSpan_def split: outcome.splits)
  ultimately show ?thesis by (simp add: Inject_set_all out_carrier.keys_set_all flip: Inject_Body [of pgt sctx msg])
qed

text \<open>A propagator that writes the span under \<open>traceparent\<close> in unary and reads it back.\<close>

definition unary_injector :: injector where
  "unary_injector ctx = (case ctx_span ctx of None \<Rightarrow> [] | Some n \<Rightarrow> [(''traceparent'', replicate n CHR ''1'')])"

definition unary_extractor :: extractor where
  "unary_extractor ctx = Ask ''traceparent'' (\<lambda>v. Finish (if v = [] then ctx else ctx\<lparr>ctx_span := Some (length v)\<rparr>))"

theorem trace_context_round_trip_witness:
  "Extract unary_extractor Background
      (Some (sample_message\<lparr>ApplicationProperties := AppProperties (Inject unary_injector (Background\<lparr>ctx_span := Some 7\<rparr>) (new_message [] []))\<rparr>))
    = Returned (Background\<lparr>ctx_span := Some 7\<rparr>)"
  using trace_context_round_trip [of
      "sample_message\<lparr>ApplicationProperties := AppProperties (Inject unary_injector (Background\<lparr>ctx_span := Some 7\<rparr>) (new_message [] []))\<rparr>"
      unary_injector "Background\<lparr>ctx_span := Some 7\<rparr>" "new_message [] []" unary_extractor Background]
  by (simp add: unary_injector_def unary_extractor_def Background_def)

text \<open>
  C35. Extracting the trace context from a received message either returns, whatever the propagator asks for, or panics
  with a failed type assertion; the latter only when some application property of the message
  holds a value that is neither nil nor a string.
\<close>

theorem extract_returns_or_type_panic:
  "(\<exists>c. Extract ext ctx (Some m) = Returned c)
     \<or> (\<exists>ps k n. ApplicationProperties m = Some ps \<and> ps k = Some (POther n)
          \<and> Extract ext ctx (Some m) = Panicked type_assertion_panic)"
proof -
  have run: "(\<exists>c. run_reader r (\<lambda>k. receivedMessageWrapper_Get k m) = Returned c)
     \<or> (\<exists>ps k n. ApplicationProperties m = Some ps \<and> ps k = Some (POther n)
          \<and> run_reader r (\<lambda>k. receivedMessageWrapper_Get k m) = Panicked type_assertion_panic)" for r
  proof (induction r)
    case (Ask k f)
    show ?case
    proof (cases "receivedMessageWrapper_Get k m")
      case (Returned v)
      with Ask show ?thesis by auto
    next
      case (Panicked p)
      then obtain ps n where "ApplicationProperties m = Some ps" "ps k = Some (POther n)" "p = type_assertion_panic"
        by (auto simp: receivedMessageWrapper_Get_def props_Get_def split: option.splits prop_value.splits)
      with Panicked show ?thesis by auto
    qed
  qed simp
  have "Extract ext ctx (Some m) = run_reader (ext ctx) (\<lambda>k. receivedMessageWrapper_Get k m)"
    by (simp add: Extract_def getRemoteParentSpan_def split: outcome.splits)
  with run show ?thesis by simp
qed

end
