(* ===== verification/Tracing.thy ===== *)
theory Tracing
  imports Handlers Otel
begin

text \<open>
  \<^verbatim>\<open>v2/tracing.go\<close>: the middleware that continues the sender's trace around a handler. The tracer of the OpenTelemetry library is a
  parameter: \<open>new_span\<close> gives the identity of the span it starts, and starting a span returns a context that carries it.
  The sender option \<open>WithTracePropagation\<close> of the same file is with the other options in theory \<open>Sender\<close>.
\<close>

section \<open>Options\<close>

definition serviceTracerName :: string where
  "serviceTracerName = ''go-shuttle''"

definition defaultReceiverHandleSpanName :: string where
  "defaultReceiverHandleSpanName = ''receiver.Handle''"

text \<open>Span start options and trace providers are identified by numbers; a nil formatter is \<open>None\<close>.\<close>

record TracingHandlerOpts =
  spanStartOptions :: "opaque list"
  traceProvider :: "opaque option"
  spanNameFormat :: "(string \<Rightarrow> ReceivedMessage \<Rightarrow> string app) option"

type_synonym tracing_option = "TracingHandlerOpts \<Rightarrow> TracingHandlerOpts"

definition WithTraceProvider :: "opaque option \<Rightarrow> tracing_option" where
  "WithTraceProvider tp = (\<lambda>t. t\<lparr>traceProvider := tp\<rparr>)"

definition WithReceiverSpanNameFormatter :: "(string \<Rightarrow> ReceivedMessage \<Rightarrow> string app) option \<Rightarrow> tracing_option" where
  "WithReceiverSpanNameFormatter format = (\<lambda>t. t\<lparr>spanNameFormat := format\<rparr>)"

definition WithSpanStartOptions :: "opaque list \<Rightarrow> tracing_option" where
  "WithSpanStartOptions options = (\<lambda>t. t\<lparr>spanStartOptions := options\<rparr>)"

text \<open>The tracer: the global provider's (\<open>None\<close>) or that of the given provider, under the service's name.\<close>

definition tracer :: "TracingHandlerOpts \<Rightarrow> opaque option \<times> string" where
  "tracer t = (case traceProvider t of None \<Rightarrow> (None, serviceTracerName) | Some tp \<Rightarrow> (Some tp, serviceTracerName))"

type_synonym new_span = "opaque option \<times> string \<Rightarrow> Context \<Rightarrow> string \<Rightarrow> world \<Rightarrow> nat"

section \<open>The handler\<close>

definition default_TracingHandlerOpts :: TracingHandlerOpts where
  "default_TracingHandlerOpts = \<lparr>spanStartOptions = [], traceProvider = None,
     spanNameFormat = Some (\<lambda>defaultSpanName message w. (Returned defaultSpanName, [], 0))\<rparr>"

definition outcomeP :: "'a outcome \<Rightarrow> (world, 'a) proc" where
  "outcomeP r = (\<lambda>w. (r, w))"

definition span_name :: "TracingHandlerOpts \<Rightarrow> ReceivedMessage \<Rightarrow> (world, string) proc" where
  "span_name t message = (case spanNameFormat t of
     None \<Rightarrow> panicP nil_pointer_panic
   | Some f \<Rightarrow> run_app (f defaultReceiverHandleSpanName message))"

definition NewTracingHandler :: "extractor \<Rightarrow> new_span \<Rightarrow> handler \<Rightarrow> tracing_option list \<Rightarrow> handler" where
  "NewTracingHandler ext new_span next options =
     (let t = fold (\<lambda>opt. opt) options default_TracingHandlerOpts in
      (\<lambda>ctx settler message.
         bindP (outcomeP (Extract ext ctx (Some message))) (\<lambda>ctx1.
         bindP (span_name t message) (\<lambda>name.
         bindP (getP (new_span (tracer t) ctx1 name)) (\<lambda>span.
         thenP (emit (EvSpan (SpanStart name (MessageAttributes (Some message)) (spanStartOptions t))))
           (deferP (next (ctx1\<lparr>ctx_span := Some span\<rparr>) settler message) (emit (EvSpan SpanEnd))))))))"

section \<open>Lemmas\<close>

fun span_of :: "event \<Rightarrow> span_call option" where
  "span_of (EvSpan s) = Some s"
| "span_of _ = None"

definition spans :: "event list \<Rightarrow> span_call list" where
  "spans es = List.map_filter span_of es"

lemma spans_simps [trace_simps, simp]:
  "spans [] = []" "spans (xs @ ys) = spans xs @ spans ys" "spans (EvSpan s # es) = s # spans es"
  "spans (map EvApp as) = []"
  by (induction as) (simp_all add: spans_def List.map_filter_def)

lemma outcomeP_apply [proc_simps]: "outcomeP r w = (r, w)"
  by (simp add: outcomeP_def)

lemma grows_outcomeP [grows_intros]: "grows (outcomeP r)"
  by (simp add: grows_def outcomeP_def)

lemma grows_span_name [grows_intros]: "grows (span_name t m)"
  by (auto simp: span_name_def intro!: grows_intros)

lemma span_name_silent:
  assumes "span_name t m w = (r, w')"
  obtains as where "events w' = events w @ map EvApp as" "now w \<le> now w'"
  using assms by (cases "spanNameFormat t") (fastforce simp: span_name_def proc_simps)+

text \<open>
  Either extracting the context or naming the span panics, and then the handler is not called and no
  span started; or the handler runs inside a span that is ended however the handler ends.
\<close>

lemma tracing_handler_cases:
  assumes "NewTracingHandler ext new_span next options ctx S m w = (r, w')"
  obtains (early) p as where "r = Panicked p" "events w' = events w @ map EvApp as"
  | (handled) ctx1 w1 name span as w2 t where
      "Extract ext ctx (Some m) = Returned ctx1"
      "t = fold (\<lambda>opt. opt) options default_TracingHandlerOpts"
      "events w1 = events w @ map EvApp as @ [EvSpan (SpanStart name (MessageAttributes (Some m)) (spanStartOptions t))]"
      "next (ctx1\<lparr>ctx_span := Some span\<rparr>) S m w1 = (r, w2)"
      "w' = w2\<lparr>events := events w2 @ [EvSpan SpanEnd]\<rparr>"
proof (cases "Extract ext ctx (Some m)")
  case (Panicked p)
  with assms show thesis by (intro early [of p "[]"]) (simp_all add: NewTracingHandler_def proc_simps Let_def)
next
  case (Returned ctx1)
  define t where "t = fold (\<lambda>opt. opt) options default_TracingHandlerOpts"
  obtain rn wn where name: "span_name t m w = (rn, wn)" by (cases "span_name t m w")
  then obtain as where as: "events wn = events w @ map EvApp as" by (rule span_name_silent)
  show thesis
  proof (cases rn)
    case (Panicked p)
    with Returned name assms as show thesis
      by (intro early [of p as]) (simp_all add: NewTracingHandler_def proc_simps Let_def flip: t_def)
  next
    case name': (Returned name')
    define w1 where "w1 = wn\<lparr>events := events wn @ [EvSpan (SpanStart name' (MessageAttributes (Some m)) (spanStartOptions t))]\<rparr>"
    define span where "span = new_span (tracer t) ctx1 name' wn"
    obtain rr w2 where nx: "next (ctx1\<lparr>ctx_span := Some span\<rparr>) S m w1 = (rr, w2)"
      by (cases "next (ctx1\<lparr>ctx_span := Some span\<rparr>) S m w1")
    have "NewTracingHandler ext new_span next options ctx S m w = (rr, w2\<lparr>events := events w2 @ [EvSpan SpanEnd]\<rparr>)"
      using Returned name name' nx
      by (simp add: NewTracingHandler_def proc_simps Let_def deferP_def w1_def span_def flip: t_def)
    with assms nx Returned t_def as show thesis
      by (intro handled [of ctx1 t w1 as name' span w2]) (auto simp: w1_def)
  qed
qed

section \<open>The middleware keeps the handler contract\<close>

context settling_handler
begin

lemma tracing_handler_settling: "settling_handler (NewTracingHandler ext new_span h options)"
proof
  fix ctx S m
  show "grows (NewTracingHandler ext new_span h options ctx S m)"
    by (auto simp: NewTracingHandler_def Let_def intro!: grows_intros handler_grows)
next
  fix ctx S m w r w'
  assume "NewTracingHandler ext new_span h options ctx S m w = (r, w')"
  then show "\<exists>cs. settlements (events w') = settlements (events w) @ cs \<and> length (filter is_final cs) \<le> 1"
  proof (cases rule: tracing_handler_cases)
    case (handled ctx1 w1 name span as w2 t)
    from settles_at_most_once [OF handled(4)] handled(3,5) show ?thesis by auto
  qed auto
qed

end

section \<open>Properties\<close>

text \<open>
  C36. The tracing middleware. When the trace context can be extracted and the span named, the wrapped handler runs exactly
  once, with the extracted context carrying a new span, between the start of that span (with the attributes of the message
  and the configured start options) and its end; the end is recorded also when the handler panics, and the
  handler's outcome is passed on. Otherwise the middleware panics with no span started.
\<close>

theorem tracing_span_brackets_handler:
  assumes "NewTracingHandler ext new_span next options ctx S m w = (r, w')"
  shows "(\<exists>p as. r = Panicked p \<and> events w' = events w @ map EvApp as)
    \<or> (\<exists>ctx1 span name as w1 w2.
         Extract ext ctx (Some m) = Returned ctx1
       \<and> events w1 = events w @ map EvApp as @ [EvSpan (SpanStart name (MessageAttributes (Some m))
            (spanStartOptions (fold (\<lambda>opt. opt) options default_TracingHandlerOpts)))]
       \<and> next (ctx1\<lparr>ctx_span := Some span\<rparr>) S m w1 = (r, w2)
       \<and> events w' = events w2 @ [EvSpan SpanEnd])"
  using assms
proof (cases rule: tracing_handler_cases)
  case (handled ctx1 w1 name span as w2 t)
  then have "events w' = events w2 @ [EvSpan SpanEnd]" by simp
  with handled(1-4) show ?thesis by blast
qed blast

theorem tracing_span_brackets_handler_witness:
  "\<exists>w'. NewTracingHandler unary_extractor (\<lambda>_ _ _ _. 9) (\<lambda>_ _ _. panicP (PanicUser 1)) [WithSpanStartOptions [4]]
       Background accepting_settler sample_message start_world = (Panicked (PanicUser 1), w')
     \<and> spans (events w') = [SpanStart ''receiver.Handle'' [(''message.id'', AStr ''id-1'')] [4], SpanEnd]"
proof -
  obtain w' where w': "NewTracingHandler unary_extractor (\<lambda>_ _ _ _. 9) (\<lambda>_ _ _. panicP (PanicUser 1)) [WithSpanStartOptions [4]]
       Background accepting_settler sample_message start_world = (Panicked (PanicUser 1), w')"
    "spans (events w') \<noteq> []" and name: "spans (events w') = [SpanStart ''receiver.Handle'' [(''message.id'', AStr ''id-1'')] [4], SpanEnd]"
    by (simp add: NewTracingHandler_def proc_simps unary_extractor_def Extract_def getRemoteParentSpan_def sample_message_def
        receivedMessageWrapper_Get_def props_Get_def default_TracingHandlerOpts_def WithSpanStartOptions_def span_name_def
        defaultReceiverHandleSpanName_def MessageAttributes_def deferP_def start_world_def)
  from tracing_span_brackets_handler [OF w'(1)] w' name show ?thesis by auto
qed

text \<open>
  A received message decides whether tracing panics: when its property \<open>traceparent\<close> holds a value that is not a
  string, a propagator that asks for that key makes the middleware panic before the handler runs; nothing
  is recorded.
\<close>

lemma foreign_traceparent_panics:
  assumes "ext ctx = Ask key k" and "ApplicationProperties m = Some ps" and "ps key = Some (POther n)"
  shows "NewTracingHandler ext new_span next options ctx S m w = (Panicked type_assertion_panic, w)"
  using assms
  by (simp add: NewTracingHandler_def proc_simps Extract_def getRemoteParentSpan_def receivedMessageWrapper_Get_def
      props_Get_def Let_def)

end
