(* ===== verification/Metrics.thy ===== *)
theory Metrics
  imports Runtime "HOL-Library.AList"
begin

text \<open>
  \<^verbatim>\<open>v2/metrics\<close>: the registries of processor and sender metrics, the recorders that update them, the informers that
  read them back, and registration. The Prometheus client's vectors and registerer are parameters (\<open>vec_api\<close>, and \<open>new_vec\<close> for the
  constructors). Values are integers: the counters are \<open>float64\<close> that only grow by whole numbers.
\<close>

section \<open>Labels, vectors and collected metrics\<close>

text \<open>A label set (\<open>prom.Labels\<close>, a map) as an association list with distinct keys; setting a key is \<open>AList.update\<close>.\<close>

type_synonym labels = "(string \<times> string) list"

text \<open>A collected metric: its label pairs (a pair may be nil) and its value.\<close>

record metric =
  Label :: "(string \<times> string) option list"
  Value :: int

record vec_desc =
  vd_name :: string
  vd_help :: string
  vd_subsystem :: string
  vd_labels :: "string list"

record 'v vec_api =
  vec_inc :: "labels \<Rightarrow> 'v \<Rightarrow> 'v"
  vec_dec :: "labels \<Rightarrow> 'v \<Rightarrow> 'v"
  vec_add :: "labels \<Rightarrow> int \<Rightarrow> 'v \<Rightarrow> 'v"
  vec_reset :: "'v \<Rightarrow> 'v"
  vec_collect :: "'v \<Rightarrow> metric list"

section \<open>metrics/common\<close>

fun HasLabel :: "metric \<Rightarrow> string \<Rightarrow> string \<Rightarrow> bool" where
  "HasLabel m key value = (\<exists>pair\<in>set (Label m). case pair of None \<Rightarrow> False | Some (n, v) \<Rightarrow> n = key \<and> v = value)"

definition HasLabels :: "metric \<Rightarrow> (string \<times> string) list \<Rightarrow> bool" where
  "HasLabels m ls = list_all (\<lambda>(key, value). HasLabel m key value) ls"

text \<open>\<open>Collect\<close> with a function that adds up the values it accepts, as every informer uses it.\<close>

definition Collect_total :: "'v vec_api \<Rightarrow> 'v \<Rightarrow> (metric \<Rightarrow> bool) \<Rightarrow> int" where
  "Collect_total api v accept = fold (\<lambda>m total. if accept m then total + Value m else total) (vec_collect api v) 0"

section \<open>metrics/processor\<close>

definition subsystem :: string where "subsystem = ''goshuttle_handler''"
definition messageTypeLabel :: string where "messageTypeLabel = ''messageType''"
definition deliveryCountLabel :: string where "deliveryCountLabel = ''deliveryCount''"
definition successLabel :: string where "successLabel = ''success''"
definition namespaceLabel :: string where "namespaceLabel = ''namespace''"
definition entityLabel :: string where "entityLabel = ''entity''"
definition subscriptionLabel :: string where "subscriptionLabel = ''subscription''"

lemmas label_defs = subsystem_def messageTypeLabel_def deliveryCountLabel_def successLabel_def namespaceLabel_def
  entityLabel_def subscriptionLabel_def

record 'v Registry =
  MessageReceivedCount :: 'v
  MessageHandledCount :: 'v
  MessageLockRenewedCount :: 'v
  MessageLockRenewalTimeoutCount :: 'v
  MessageDeadlineReachedCount :: 'v
  HealthCheckCount :: 'v
  ConcurrentMessageCount :: 'v

definition vec :: "string \<Rightarrow> string \<Rightarrow> string list \<Rightarrow> vec_desc" where
  "vec name help ls = \<lparr>vd_name = name, vd_help = help, vd_subsystem = subsystem, vd_labels = ls\<rparr>"

definition NewRegistry :: "(vec_desc \<Rightarrow> 'v) \<Rightarrow> 'v Registry" where
  "NewRegistry new_vec = \<lparr>
     MessageReceivedCount = new_vec (vec ''message_received_total'' ''total number of messages received by the processor'' []),
     MessageHandledCount = new_vec (vec ''message_handled_total'' ''total number of messages handled by this handler''
       [messageTypeLabel, deliveryCountLabel]),
     MessageLockRenewedCount = new_vec (vec ''message_lock_renewed_total'' ''total number of message lock renewal''
       [messageTypeLabel, successLabel]),
     MessageLockRenewalTimeoutCount = new_vec (vec ''message_lock_renewal_timeout_total''
       ''total number of message lock renewal calls that timed out'' [messageTypeLabel]),
     MessageDeadlineReachedCount = new_vec (vec ''message_deadline_reached_total''
       ''total number of message lock renewal that reached deadline'' [messageTypeLabel]),
     HealthCheckCount = new_vec (vec ''receiver_health_check_total''
       ''total number of receiver health check successes or failures''
       [namespaceLabel, entityLabel, subscriptionLabel, successLabel]),
     ConcurrentMessageCount = new_vec (vec ''concurrent_message_count'' ''number of messages being handled concurrently''
       [messageTypeLabel])\<rparr>"

text \<open>
  \<open>fmt.Sprintf("%s", typeName)\<close>: a string is itself, nil prints as below, \<open>render\<close> is how another value prints.
  Reading a nil property map gives nil.
\<close>

definition message_type :: "(nat \<Rightarrow> string) \<Rightarrow> ReceivedMessage \<Rightarrow> string" where
  "message_type render msg = (case ApplicationProperties msg of
     None \<Rightarrow> ''%!s(<nil>)''
   | Some ps \<Rightarrow> (case ps ''type'' of
       None \<Rightarrow> ''%!s(<nil>)''
     | Some PNil \<Rightarrow> ''%!s(<nil>)''
     | Some (PStr t) \<Rightarrow> t
     | Some (POther n) \<Rightarrow> render n))"

definition getMessageTypeLabel :: "(nat \<Rightarrow> string) \<Rightarrow> ReceivedMessage \<Rightarrow> labels" where
  "getMessageTypeLabel render msg = [(messageTypeLabel, message_type render msg)]"

text \<open>\<open>strconv.FormatUint\<close> in base 10.\<close>

fun decimal :: "nat \<Rightarrow> string" where
  "decimal n = (if n < 10 then [char_of (48 + n)] else decimal (n div 10) @ [char_of (48 + n mod 10)])"

declare decimal.simps [simp del]

definition health_labels :: "string \<Rightarrow> string \<Rightarrow> string \<Rightarrow> string \<Rightarrow> labels" where
  "health_labels namespace entity subscription success =
     [(namespaceLabel, namespace), (entityLabel, entity), (subscriptionLabel, subscription), (successLabel, success)]"

text \<open>The methods of the recorder.\<close>

fun record_call :: "'v vec_api \<Rightarrow> (nat \<Rightarrow> string) \<Rightarrow> recorder_call \<Rightarrow> 'v Registry \<Rightarrow> 'v Registry" where
  "record_call api render (IncMessageLockRenewedSuccess msg) r =
     r\<lparr>MessageLockRenewedCount := vec_inc api (AList.update successLabel ''true'' (getMessageTypeLabel render msg)) (MessageLockRenewedCount r)\<rparr>"
| "record_call api render (IncMessageLockRenewedFailure msg) r =
     r\<lparr>MessageLockRenewedCount := vec_inc api (AList.update successLabel ''false'' (getMessageTypeLabel render msg)) (MessageLockRenewedCount r)\<rparr>"
| "record_call api render (IncMessageHandled msg) r =
     r\<lparr>MessageHandledCount := vec_inc api
        (AList.update deliveryCountLabel (decimal (unat (DeliveryCount msg))) (getMessageTypeLabel render msg)) (MessageHandledCount r)\<rparr>"
| "record_call api render (IncConcurrentMessageCount msg) r =
     r\<lparr>ConcurrentMessageCount := vec_inc api (getMessageTypeLabel render msg) (ConcurrentMessageCount r)\<rparr>"
| "record_call api render (DecConcurrentMessageCount msg) r =
     r\<lparr>ConcurrentMessageCount := vec_dec api (getMessageTypeLabel render msg) (ConcurrentMessageCount r)\<rparr>"
| "record_call api render (IncMessageLockRenewalTimeoutCount msg) r =
     r\<lparr>MessageLockRenewalTimeoutCount := vec_inc api (getMessageTypeLabel render msg) (MessageLockRenewalTimeoutCount r)\<rparr>"
| "record_call api render (IncMessageDeadlineReachedCount msg) r =
     r\<lparr>MessageDeadlineReachedCount := vec_inc api (getMessageTypeLabel render msg) (MessageDeadlineReachedCount r)\<rparr>"
| "record_call api render (IncMessageReceived n) r =
     r\<lparr>MessageReceivedCount := vec_add api [] (int n) (MessageReceivedCount r)\<rparr>"
| "record_call api render (IncHealthCheckSuccessCount ns en sub) r =
     r\<lparr>HealthCheckCount := vec_inc api (health_labels ns en sub ''true'') (HealthCheckCount r)\<rparr>"
| "record_call api render (IncHealthCheckFailureCount ns en sub) r =
     r\<lparr>HealthCheckCount := vec_inc api (health_labels ns en sub ''false'') (HealthCheckCount r)\<rparr>"

definition record_all :: "'v vec_api \<Rightarrow> (nat \<Rightarrow> string) \<Rightarrow> recorder_call list \<Rightarrow> 'v Registry \<Rightarrow> 'v Registry" where
  "record_all api render cs r = fold (record_call api render) cs r"

text \<open>The informer. Each method returns its total and a nil error.\<close>

definition GetMessageLockRenewedFailureCount :: "'v vec_api \<Rightarrow> 'v Registry \<Rightarrow> int" where
  "GetMessageLockRenewedFailureCount api r =
     Collect_total api (MessageLockRenewedCount r) (\<lambda>m. HasLabel m successLabel ''false'')"

definition GetMessageLockRenewalTimeoutCount :: "'v vec_api \<Rightarrow> 'v Registry \<Rightarrow> int" where
  "GetMessageLockRenewalTimeoutCount api r = Collect_total api (MessageLockRenewalTimeoutCount r) (\<lambda>_. True)"

definition GetHealthCheckSuccessCount :: "'v vec_api \<Rightarrow> string \<Rightarrow> string \<Rightarrow> string \<Rightarrow> 'v Registry \<Rightarrow> int" where
  "GetHealthCheckSuccessCount api ns en sub r = Collect_total api (HealthCheckCount r)
     (\<lambda>m. HasLabels m [(namespaceLabel, ns), (entityLabel, en), (subscriptionLabel, sub), (successLabel, ''true'')])"

definition GetHealthCheckFailureCount :: "'v vec_api \<Rightarrow> string \<Rightarrow> string \<Rightarrow> string \<Rightarrow> 'v Registry \<Rightarrow> int" where
  "GetHealthCheckFailureCount api ns en sub r = Collect_total api (HealthCheckCount r)
     (\<lambda>m. HasLabels m [(namespaceLabel, ns), (entityLabel, en), (subscriptionLabel, sub), (successLabel, ''false'')])"

section \<open>metrics/sender\<close>

record 'v SenderRegistry =
  MessageSentCount :: 'v
  SenderHealthCheckCount :: 'v

definition newRegistry :: "(vec_desc \<Rightarrow> 'v) \<Rightarrow> 'v SenderRegistry" where
  "newRegistry new_vec = \<lparr>
     MessageSentCount = new_vec (vec ''message_sent_total'' ''total number of messages sent by the sender'' [successLabel]),
     SenderHealthCheckCount = new_vec (vec ''sender_health_check_total''
       ''total number of sender health check successes or failures'' [namespaceLabel, entityLabel, successLabel])\<rparr>"

datatype sender_metric =
    IncSendMessageSuccessCount
  | IncSendMessageFailureCount
  | ResetSendMessageCount
  | IncSenderHealthCheckSuccessCount string string
  | IncSenderHealthCheckFailureCount string string

fun record_send :: "'v vec_api \<Rightarrow> sender_metric \<Rightarrow> 'v SenderRegistry \<Rightarrow> 'v SenderRegistry" where
  "record_send api IncSendMessageSuccessCount r =
     r\<lparr>MessageSentCount := vec_inc api [(successLabel, ''true'')] (MessageSentCount r)\<rparr>"
| "record_send api IncSendMessageFailureCount r =
     r\<lparr>MessageSentCount := vec_inc api [(successLabel, ''false'')] (MessageSentCount r)\<rparr>"
| "record_send api ResetSendMessageCount r = r\<lparr>MessageSentCount := vec_reset api (MessageSentCount r)\<rparr>"
| "record_send api (IncSenderHealthCheckSuccessCount ns en) r =
     r\<lparr>SenderHealthCheckCount := vec_inc api [(namespaceLabel, ns), (entityLabel, en), (successLabel, ''true'')]
        (SenderHealthCheckCount r)\<rparr>"
| "record_send api (IncSenderHealthCheckFailureCount ns en) r =
     r\<lparr>SenderHealthCheckCount := vec_inc api [(namespaceLabel, ns), (entityLabel, en), (successLabel, ''false'')]
        (SenderHealthCheckCount r)\<rparr>"

definition record_sends :: "'v vec_api \<Rightarrow> sender_metric list \<Rightarrow> 'v SenderRegistry \<Rightarrow> 'v SenderRegistry" where
  "record_sends api cs r = fold (record_send api) cs r"

definition GetSendMessageFailureCount :: "'v vec_api \<Rightarrow> 'v SenderRegistry \<Rightarrow> int" where
  "GetSendMessageFailureCount api r = Collect_total api (MessageSentCount r) (\<lambda>m. HasLabel m successLabel ''false'')"

definition GetSenderHealthCheckSuccessCount :: "'v vec_api \<Rightarrow> string \<Rightarrow> string \<Rightarrow> 'v SenderRegistry \<Rightarrow> int" where
  "GetSenderHealthCheckSuccessCount api ns en r = Collect_total api (SenderHealthCheckCount r)
     (\<lambda>m. HasLabels m [(namespaceLabel, ns), (entityLabel, en), (successLabel, ''true'')])"

definition GetSenderHealthCheckFailureCount :: "'v vec_api \<Rightarrow> string \<Rightarrow> string \<Rightarrow> 'v SenderRegistry \<Rightarrow> int" where
  "GetSenderHealthCheckFailureCount api ns en r = Collect_total api (SenderHealthCheckCount r)
     (\<lambda>m. HasLabels m [(namespaceLabel, ns), (entityLabel, en), (successLabel, ''false'')])"

section \<open>Registration\<close>

text \<open>\<open>Init\<close> hands the vectors to \<open>MustRegister\<close> in this order; \<open>Register\<close> does so for both registries.\<close>

definition Init :: "'v Registry \<Rightarrow> 'v list" where
  "Init m = [MessageReceivedCount m, MessageHandledCount m, MessageLockRenewedCount m, MessageLockRenewalTimeoutCount m,
     MessageDeadlineReachedCount m, HealthCheckCount m, ConcurrentMessageCount m]"

definition sender_Init :: "'v SenderRegistry \<Rightarrow> 'v list" where
  "sender_Init m = [MessageSentCount m, SenderHealthCheckCount m]"

definition Register :: "'v SenderRegistry \<Rightarrow> 'v Registry \<Rightarrow> 'v list" where
  "Register sm pm = sender_Init sm @ Init pm"

section \<open>What the vectors promise\<close>

text \<open>
  Documented behaviour of the Prometheus vectors: collecting yields metrics with one value per label name, and what the collected
  metrics add up to, over any choice of label sets, changes by exactly what was added under a label set; a reset vector is empty.
\<close>

type_synonym label_fun = "string \<rightharpoonup> string"

definition label_map :: "metric \<Rightarrow> label_fun" where
  "label_map m = map_of (List.map_filter (\<lambda>x. x) (Label m))"

definition msum :: "(label_fun \<Rightarrow> bool) \<Rightarrow> metric list \<Rightarrow> int" where
  "msum P ms = (\<Sum>m\<leftarrow>ms. if P (label_map m) then Value m else 0)"

definition one_value_per_name :: "metric \<Rightarrow> bool" where
  "one_value_per_name m = distinct (map fst (List.map_filter (\<lambda>x. x) (Label m)))"

definition vec_laws :: "'v vec_api \<Rightarrow> bool" where
  "vec_laws api \<longleftrightarrow>
     (\<forall>l v P. distinct (map fst l) \<longrightarrow>
        msum P (vec_collect api (vec_inc api l v)) = msum P (vec_collect api v) + (if P (map_of l) then 1 else 0)
      \<and> msum P (vec_collect api (vec_dec api l v)) = msum P (vec_collect api v) - (if P (map_of l) then 1 else 0)
      \<and> (\<forall>n. msum P (vec_collect api (vec_add api l n v)) = msum P (vec_collect api v) + (if P (map_of l) then n else 0)))
     \<and> (\<forall>v. vec_collect api (vec_reset api v) = [])
     \<and> (\<forall>v. list_all one_value_per_name (vec_collect api v))"

definition vec_total :: "'v vec_api \<Rightarrow> 'v \<Rightarrow> (label_fun \<Rightarrow> bool) \<Rightarrow> int" where
  "vec_total api v P = msum P (vec_collect api v)"

lemma vec_total_update [simp]:
  assumes "vec_laws api"
  shows "distinct (map fst l) \<Longrightarrow> vec_total api (vec_inc api l v) P = vec_total api v P + (if P (map_of l) then 1 else 0)"
    and "distinct (map fst l) \<Longrightarrow> vec_total api (vec_dec api l v) P = vec_total api v P - (if P (map_of l) then 1 else 0)"
    and "distinct (map fst l) \<Longrightarrow> vec_total api (vec_add api l n v) P = vec_total api v P + (if P (map_of l) then n else 0)"
    and "vec_total api (vec_reset api v) P = 0"
  using assms by (simp_all add: vec_laws_def vec_total_def msum_def)

lemma set_map_filter_id: "set (List.map_filter (\<lambda>x. x) xs) = {x. Some x \<in> set xs}"
  by (induction xs) (auto simp: List.map_filter_simps split: option.splits)

lemma HasLabel_label_map:
  assumes "one_value_per_name m"
  shows "HasLabel m k v \<longleftrightarrow> label_map m k = Some v"
proof -
  have "HasLabel m k v \<longleftrightarrow> (k, v) \<in> set (List.map_filter (\<lambda>x. x) (Label m))"
    by (auto simp: set_map_filter_id split: option.splits)
  with assms show ?thesis by (simp add: label_map_def one_value_per_name_def)
qed

lemma fold_total:
  "fold (\<lambda>m total. if accept m then total + Value m else total) ms t = t + (\<Sum>m\<leftarrow>ms. if accept m then Value m else 0)"
  by (induction ms arbitrary: t) auto

lemma Collect_total_vec_total:
  assumes "vec_laws api"
    and "\<And>m. one_value_per_name m \<Longrightarrow> accept m = P (label_map m)"
  shows "Collect_total api v accept = vec_total api v P"
proof -
  have "list_all one_value_per_name (vec_collect api v)"
    using assms(1) unfolding vec_laws_def by blast
  then have "map (\<lambda>m. if accept m then Value m else 0) (vec_collect api v)
      = map (\<lambda>m. if P (label_map m) then Value m else 0) (vec_collect api v)"
    using assms(2) by (auto simp: list_all_iff)
  from arg_cong [OF this, of sum_list] show ?thesis by (simp add: Collect_total_def fold_total vec_total_def msum_def)
qed

lemma HasLabels_label_map:
  assumes "one_value_per_name m"
  shows "HasLabels m ls \<longleftrightarrow> list_all (\<lambda>(k, v). label_map m k = Some v) ls"
  using HasLabel_label_map [OF assms] by (auto simp: HasLabels_def list_all_iff simp del: HasLabel.simps)

lemma informer_totals:
  assumes "vec_laws api"
  shows "GetMessageLockRenewedFailureCount api r = vec_total api (MessageLockRenewedCount r) (\<lambda>l. l successLabel = Some ''false'')"
    and "GetMessageLockRenewalTimeoutCount api r = vec_total api (MessageLockRenewalTimeoutCount r) (\<lambda>_. True)"
    and "GetHealthCheckSuccessCount api ns en sub r = vec_total api (HealthCheckCount r)
        (\<lambda>l. list_all (\<lambda>(k, v). l k = Some v) [(namespaceLabel, ns), (entityLabel, en), (subscriptionLabel, sub), (successLabel, ''true'')])"
    and "GetHealthCheckFailureCount api ns en sub r = vec_total api (HealthCheckCount r)
        (\<lambda>l. list_all (\<lambda>(k, v). l k = Some v) [(namespaceLabel, ns), (entityLabel, en), (subscriptionLabel, sub), (successLabel, ''false'')])"
  unfolding GetMessageLockRenewedFailureCount_def GetMessageLockRenewalTimeoutCount_def GetHealthCheckSuccessCount_def
    GetHealthCheckFailureCount_def
  by (rule Collect_total_vec_total [OF assms], simp add: HasLabel_label_map HasLabels_label_map del: HasLabel.simps)+

lemma sender_informer_totals:
  assumes "vec_laws api"
  shows "GetSendMessageFailureCount api sr = vec_total api (MessageSentCount sr) (\<lambda>l. l successLabel = Some ''false'')"
    and "GetSenderHealthCheckSuccessCount api ns en sr = vec_total api (SenderHealthCheckCount sr)
        (\<lambda>l. list_all (\<lambda>(k, v). l k = Some v) [(namespaceLabel, ns), (entityLabel, en), (successLabel, ''true'')])"
    and "GetSenderHealthCheckFailureCount api ns en sr = vec_total api (SenderHealthCheckCount sr)
        (\<lambda>l. list_all (\<lambda>(k, v). l k = Some v) [(namespaceLabel, ns), (entityLabel, en), (successLabel, ''false'')])"
  unfolding GetSendMessageFailureCount_def GetSenderHealthCheckSuccessCount_def GetSenderHealthCheckFailureCount_def
  by (rule Collect_total_vec_total [OF assms], simp add: HasLabel_label_map HasLabels_label_map del: HasLabel.simps)+

lemma record_all_simps [simp]:
  "record_all api render [] r = r"
  "record_all api render (c # cs) r = record_all api render cs (record_call api render c r)"
  by (simp_all add: record_all_def)

lemma record_sends_simps [simp]:
  "record_sends api [] sr = sr"
  "record_sends api (c # cs) sr = record_sends api cs (record_send api c sr)"
  by (simp_all add: record_sends_def)

section \<open>Lemmas: totals after a series of calls\<close>

fun is_renewed_failure :: "recorder_call \<Rightarrow> bool" where
  "is_renewed_failure (IncMessageLockRenewedFailure m) = True"
| "is_renewed_failure _ = False"

fun is_renewal_timeout :: "recorder_call \<Rightarrow> bool" where
  "is_renewal_timeout (IncMessageLockRenewalTimeoutCount m) = True"
| "is_renewal_timeout _ = False"

fun gauge_change :: "(ReceivedMessage \<Rightarrow> bool) \<Rightarrow> recorder_call \<Rightarrow> int" where
  "gauge_change p (IncConcurrentMessageCount m) = (if p m then 1 else 0)"
| "gauge_change p (DecConcurrentMessageCount m) = (if p m then - 1 else 0)"
| "gauge_change p _ = 0"

abbreviation count_calls :: "('c \<Rightarrow> bool) \<Rightarrow> 'c list \<Rightarrow> int" where
  "count_calls p cs \<equiv> int (length (filter p cs))"

definition gauge :: "'v vec_api \<Rightarrow> string \<Rightarrow> 'v Registry \<Rightarrow> int" where
  "gauge api ty r = Collect_total api (ConcurrentMessageCount r) (\<lambda>m. HasLabel m messageTypeLabel ty)"

lemma gauge_total: "vec_laws api \<Longrightarrow> gauge api ty r = vec_total api (ConcurrentMessageCount r) (\<lambda>l. l messageTypeLabel = Some ty)"
  unfolding gauge_def by (rule Collect_total_vec_total) (simp_all add: HasLabel_label_map del: HasLabel.simps)

lemma record_call_effect:
  assumes "vec_laws api"
  shows "GetMessageLockRenewedFailureCount api (record_call api render c r)
           = GetMessageLockRenewedFailureCount api r + (if is_renewed_failure c then 1 else 0)"
    and "GetMessageLockRenewalTimeoutCount api (record_call api render c r)
           = GetMessageLockRenewalTimeoutCount api r + (if is_renewal_timeout c then 1 else 0)"
    and "GetHealthCheckSuccessCount api ns en sub (record_call api render c r)
           = GetHealthCheckSuccessCount api ns en sub r + (if c = IncHealthCheckSuccessCount ns en sub then 1 else 0)"
    and "GetHealthCheckFailureCount api ns en sub (record_call api render c r)
           = GetHealthCheckFailureCount api ns en sub r + (if c = IncHealthCheckFailureCount ns en sub then 1 else 0)"
    and "gauge api ty (record_call api render c r) = gauge api ty r + gauge_change (\<lambda>m. message_type render m = ty) c"
  using assms
  by (cases c; auto simp: informer_totals gauge_total getMessageTypeLabel_def health_labels_def label_defs)+

lemma record_send_effect:
  assumes "vec_laws api"
  shows "GetSendMessageFailureCount api (record_send api c sr) =
      (if c = ResetSendMessageCount then 0
       else GetSendMessageFailureCount api sr + (if c = IncSendMessageFailureCount then 1 else 0))"
    and "GetSenderHealthCheckSuccessCount api ns en (record_send api c sr)
      = GetSenderHealthCheckSuccessCount api ns en sr + (if c = IncSenderHealthCheckSuccessCount ns en then 1 else 0)"
    and "GetSenderHealthCheckFailureCount api ns en (record_send api c sr)
      = GetSenderHealthCheckFailureCount api ns en sr + (if c = IncSenderHealthCheckFailureCount ns en then 1 else 0)"
  using assms by (cases c; auto simp: sender_informer_totals label_defs)+

section \<open>A concrete vector for the witnesses\<close>

text \<open>A vector as the list of the changes made to it, each collected as a metric of its own.\<close>

definition log_vec :: "metric list vec_api" where
  "log_vec = \<lparr>vec_inc = (\<lambda>l v. if distinct (map fst l) then v @ [\<lparr>Label = map Some l, Value = 1\<rparr>] else v),
     vec_dec = (\<lambda>l v. if distinct (map fst l) then v @ [\<lparr>Label = map Some l, Value = - 1\<rparr>] else v),
     vec_add = (\<lambda>l n v. if distinct (map fst l) then v @ [\<lparr>Label = map Some l, Value = n\<rparr>] else v),
     vec_reset = (\<lambda>_. []), vec_collect = filter one_value_per_name\<rparr>"

lemma map_filter_map_Some [simp]: "List.map_filter (\<lambda>x. x) (map Some l) = l"
  by (induction l) (simp_all add: List.map_filter_simps)

lemma log_vec_laws: "vec_laws log_vec"
  by (auto simp: vec_laws_def log_vec_def msum_def label_map_def one_value_per_name_def list_all_iff)

lemma record_all_effect:
  assumes "vec_laws api"
  shows "GetMessageLockRenewedFailureCount api (record_all api render cs r)
           = GetMessageLockRenewedFailureCount api r + count_calls is_renewed_failure cs"
    and "GetMessageLockRenewalTimeoutCount api (record_all api render cs r)
           = GetMessageLockRenewalTimeoutCount api r + count_calls is_renewal_timeout cs"
    and "GetHealthCheckSuccessCount api ns en sub (record_all api render cs r)
           = GetHealthCheckSuccessCount api ns en sub r + count_calls (\<lambda>c. c = IncHealthCheckSuccessCount ns en sub) cs"
    and "GetHealthCheckFailureCount api ns en sub (record_all api render cs r)
           = GetHealthCheckFailureCount api ns en sub r + count_calls (\<lambda>c. c = IncHealthCheckFailureCount ns en sub) cs"
    and "gauge api ty (record_all api render cs r)
           = gauge api ty r + (\<Sum>c\<leftarrow>cs. gauge_change (\<lambda>m. message_type render m = ty) c)"
  by (induction cs arbitrary: r) (simp_all add: record_call_effect [OF assms])

section \<open>Labels as declared\<close>

text \<open>
  Using a vector with label names other than the declared ones panics. A vector that only checks this:
  its description and whether every use so far named exactly the declared labels.
\<close>

definition uses_declared :: "labels \<Rightarrow> vec_desc \<times> bool \<Rightarrow> vec_desc \<times> bool" where
  "uses_declared l v = (fst v, snd v \<and> distinct (map fst l) \<and> set (map fst l) = set (vd_labels (fst v)))"

definition label_check :: "(vec_desc \<times> bool) vec_api" where
  "label_check = \<lparr>vec_inc = uses_declared, vec_dec = uses_declared, vec_add = (\<lambda>l _. uses_declared l), vec_reset = (\<lambda>v. v),
     vec_collect = (\<lambda>_. [])\<rparr>"

definition labels_ok :: "(vec_desc \<times> bool) Registry \<Rightarrow> bool" where
  "labels_ok r \<longleftrightarrow> map fst (Init r) = Init (NewRegistry (\<lambda>d. d)) \<and> list_all snd (Init r)"

definition sender_labels_ok :: "(vec_desc \<times> bool) SenderRegistry \<Rightarrow> bool" where
  "sender_labels_ok r \<longleftrightarrow> map fst (sender_Init r) = sender_Init (newRegistry (\<lambda>d. d)) \<and> list_all snd (sender_Init r)"

lemma record_call_labels: "labels_ok r \<Longrightarrow> labels_ok (record_call label_check render c r)"
  by (cases c)
    (auto simp: labels_ok_def Init_def NewRegistry_def label_check_def uses_declared_def vec_def getMessageTypeLabel_def
      health_labels_def label_defs)

lemma record_send_labels: "sender_labels_ok sr \<Longrightarrow> sender_labels_ok (record_send label_check c sr)"
  by (cases c)
    (auto simp: sender_labels_ok_def sender_Init_def newRegistry_def label_check_def uses_declared_def vec_def label_defs)

section \<open>Properties\<close>

text \<open>
  C28. The processor's informer reads back what was recorded: after any series of recorder calls (interleaved in any way,
  for any messages) the failure, timeout and health check totals have grown by exactly the number of the calls they
  stand for, for the exact namespace, entity and subscription asked for; and the concurrency gauge of a message type by the difference of its
  increments and decrements.
\<close>

theorem informer_counts_calls:
  assumes "vec_laws api"
  shows "GetMessageLockRenewedFailureCount api (record_all api render cs r)
           = GetMessageLockRenewedFailureCount api r + count_calls is_renewed_failure cs
     \<and> GetMessageLockRenewalTimeoutCount api (record_all api render cs r)
           = GetMessageLockRenewalTimeoutCount api r + count_calls is_renewal_timeout cs
     \<and> GetHealthCheckSuccessCount api ns en sub (record_all api render cs r)
           = GetHealthCheckSuccessCount api ns en sub r + count_calls (\<lambda>c. c = IncHealthCheckSuccessCount ns en sub) cs
     \<and> GetHealthCheckFailureCount api ns en sub (record_all api render cs r)
           = GetHealthCheckFailureCount api ns en sub r + count_calls (\<lambda>c. c = IncHealthCheckFailureCount ns en sub) cs
     \<and> gauge api ty (record_all api render cs r)
           = gauge api ty r + (\<Sum>c\<leftarrow>cs. gauge_change (\<lambda>m. message_type render m = ty) c)"
  by (simp add: record_all_effect [OF assms])

theorem informer_counts_calls_witness:
  "GetMessageLockRenewedFailureCount log_vec (record_all log_vec (\<lambda>_. [])
     [IncMessageLockRenewedFailure sample_message, IncMessageLockRenewedSuccess sample_message,
      IncMessageLockRenewedFailure sample_message] (NewRegistry (\<lambda>_. []))) = 2"
proof -
  have "GetMessageLockRenewedFailureCount log_vec (NewRegistry (\<lambda>_. [])) = 0"
    by (simp add: GetMessageLockRenewedFailureCount_def Collect_total_def log_vec_def NewRegistry_def)
  with informer_counts_calls [OF log_vec_laws, of "\<lambda>_. []" "[IncMessageLockRenewedFailure sample_message,
      IncMessageLockRenewedSuccess sample_message, IncMessageLockRenewedFailure sample_message]"
      "NewRegistry (\<lambda>_. [])" "[]" "[]" "[]" "[]"]
  show ?thesis by simp
qed

text \<open>
  C29. The sender's informer reads back what was recorded: the failures since the last reset, and the health checks of the exact
  namespace and entity, which a reset leaves alone.
\<close>

theorem sender_informer_counts_calls:
  assumes "vec_laws api"
  shows "(ResetSendMessageCount \<notin> set cs \<longrightarrow> GetSendMessageFailureCount api (record_sends api cs sr)
           = GetSendMessageFailureCount api sr + count_calls (\<lambda>c. c = IncSendMessageFailureCount) cs)
     \<and> GetSendMessageFailureCount api (record_sends api (cs @ [ResetSendMessageCount]) sr) = 0
     \<and> GetSenderHealthCheckSuccessCount api ns en (record_sends api cs sr)
           = GetSenderHealthCheckSuccessCount api ns en sr + count_calls (\<lambda>c. c = IncSenderHealthCheckSuccessCount ns en) cs
     \<and> GetSenderHealthCheckFailureCount api ns en (record_sends api cs sr)
           = GetSenderHealthCheckFailureCount api ns en sr + count_calls (\<lambda>c. c = IncSenderHealthCheckFailureCount ns en) cs"
proof (induction cs arbitrary: sr)
  case Nil
  show ?case using record_send_effect(1) [OF assms, of ResetSendMessageCount sr] by simp
next
  case (Cons c cs)
  then show ?case by (simp add: record_send_effect [OF assms] del: record_send.simps)
qed

theorem sender_informer_counts_calls_witness:
  "GetSendMessageFailureCount log_vec (record_sends log_vec
     [IncSendMessageFailureCount, IncSendMessageSuccessCount, IncSendMessageFailureCount] (newRegistry (\<lambda>_. []))) = 2"
proof -
  have "GetSendMessageFailureCount log_vec (newRegistry (\<lambda>_. [])) = 0"
    by (simp add: GetSendMessageFailureCount_def Collect_total_def log_vec_def newRegistry_def)
  with sender_informer_counts_calls [OF log_vec_laws, of
      "[IncSendMessageFailureCount, IncSendMessageSuccessCount, IncSendMessageFailureCount]" "newRegistry (\<lambda>_. [])" "[]" "[]"]
  show ?thesis by simp
qed

text \<open>
  C30. No recorder call panics over labels: whatever is recorded, in whatever order, each use of a vector names exactly the labels that
  the registry declared for it, each once; and the vectors handed to the registerer have nine different names.
\<close>

theorem recorders_use_declared_labels:
  "labels_ok (record_all label_check render cs (NewRegistry (\<lambda>d. (d, True))))
   \<and> sender_labels_ok (record_sends label_check scs (newRegistry (\<lambda>d. (d, True))))
   \<and> distinct (map (\<lambda>d. (vd_subsystem d, vd_name d)) (Register (newRegistry (\<lambda>d. d)) (NewRegistry (\<lambda>d. d))))"
proof (intro conjI)
  have "labels_ok r \<Longrightarrow> labels_ok (record_all label_check render cs r)" for r
    by (induction cs arbitrary: r) (simp_all add: record_call_labels)
  then show "labels_ok (record_all label_check render cs (NewRegistry (\<lambda>d. (d, True))))"
    by (simp add: labels_ok_def Init_def NewRegistry_def)
  have "sender_labels_ok sr \<Longrightarrow> sender_labels_ok (record_sends label_check scs sr)" for sr
    by (induction scs arbitrary: sr) (simp_all add: record_send_labels)
  then show "sender_labels_ok (record_sends label_check scs (newRegistry (\<lambda>d. (d, True))))"
    by (simp add: sender_labels_ok_def sender_Init_def newRegistry_def)
  show "distinct (map (\<lambda>d. (vd_subsystem d, vd_name d)) (Register (newRegistry (\<lambda>d. d)) (NewRegistry (\<lambda>d. d))))"
    by (simp add: Register_def sender_Init_def Init_def newRegistry_def NewRegistry_def vec_def)
qed

end
