(* ===== verification/Sender.thy ===== *)
theory Sender
  imports Otel Metrics
begin

text \<open>
  \<^verbatim>\<open>v2/sender.go\<close>: building an outgoing message, sending one message, sending an array of messages in batches.
  The client library's sender and message batches are parameters. The goroutine that makes the call
  and the \<open>select\<close> that waits for it or for the context are one definition, \<open>await\<close>: it gives the branch taken and the instant.
  The mutex around the underlying sender is the subject of another theory, \<open>SenderLock\<close>.
\<close>

section \<open>Options\<close>

definition defaultSendTimeout :: duration where
  "defaultSendTimeout = seconds 30"

definition msgTypeField :: string where
  "msgTypeField = ''type''"

record SendAsBatchOptions =
  AllowMultipleBatch :: bool

record SenderOptions =
  OptMarshaller :: "Marshaller option"
  EnableTracingPropagation :: bool
  SendTimeout :: duration

text \<open>
  \<open>NewSender\<close> fills in the options; what the sender uses afterwards. \<open>json\<close> is the default marshaller,
  which depends on the parameters of \<open>encoding/json\<close>.
\<close>

record sender_config =
  cfg_marshaller :: Marshaller
  cfg_propagate :: bool
  cfg_timeout :: duration

definition NewSender :: "Marshaller \<Rightarrow> SenderOptions option \<Rightarrow> sender_config" where
  "NewSender json options =
     (let options = (case options of None \<Rightarrow> \<lparr>OptMarshaller = None, EnableTracingPropagation = False, SendTimeout = 0\<rparr> | Some o' \<Rightarrow> o')
      in \<lparr>cfg_marshaller = (case OptMarshaller options of None \<Rightarrow> json | Some m \<Rightarrow> m),
          cfg_propagate = EnableTracingPropagation options,
          cfg_timeout = (if SendTimeout options = 0 then defaultSendTimeout else SendTimeout options)\<rparr>)"

section \<open>Message options\<close>

text \<open>An option changes the message and may fail or panic; the current time is an argument for \<open>SetMessageDelay\<close>.\<close>

type_synonym msg_option = "instant \<Rightarrow> Message \<Rightarrow> (err option \<times> Message) outcome"

definition SetMessageId :: "string option \<Rightarrow> msg_option" where
  "SetMessageId messageId = (\<lambda>t msg. Returned (None, msg\<lparr>OutMessageID := messageId\<rparr>))"

definition SetCorrelationId :: "string option \<Rightarrow> msg_option" where
  "SetCorrelationId correlationId = (\<lambda>t msg. Returned (None, msg\<lparr>OutCorrelationID := correlationId\<rparr>))"

definition SetScheduleAt :: "instant \<Rightarrow> msg_option" where
  "SetScheduleAt at = (\<lambda>t msg. Returned (None, msg\<lparr>OutScheduledEnqueueTime := Some at\<rparr>))"

definition SetMessageDelay :: "duration \<Rightarrow> msg_option" where
  "SetMessageDelay delay = (\<lambda>t msg. Returned (None, msg\<lparr>OutScheduledEnqueueTime := Some (t + delay)\<rparr>))"

definition SetMessageTTL :: "duration \<Rightarrow> msg_option" where
  "SetMessageTTL ttl = (\<lambda>t msg. Returned (None, msg\<lparr>OutTimeToLive := Some ttl\<rparr>))"

definition SetSubject :: "string \<Rightarrow> msg_option" where
  "SetSubject subject = (\<lambda>t msg. Returned (None, msg\<lparr>Subject := Some subject\<rparr>))"

definition SetTo :: "string \<Rightarrow> msg_option" where
  "SetTo to = (\<lambda>t msg. Returned (None, msg\<lparr>SendTo := Some to\<rparr>))"

definition WithTracePropagation :: "injector \<Rightarrow> Context \<Rightarrow> msg_option" where
  "WithTracePropagation pgt ctx = (\<lambda>t msg. Returned (None, Inject pgt ctx msg))"

section \<open>ToServiceBusMessage\<close>

definition reflect_panic :: panic_value where
  "reflect_panic = RuntimeError ''reflect: call of reflect.Value.Type on zero Value''"

text \<open>\<open>Type\<close> of the zero \<open>reflect.Value\<close> panics: for the nil interface and for what a nil pointer points to.\<close>

fun getMessageType :: "MessageBody \<Rightarrow> string outcome" where
  "getMessageType NilBody = Panicked reflect_panic"
| "getMessageType (ValueBody t n) = Returned t"
| "getMessageType (PointerBody t n) = Returned t"
| "getMessageType (NilPointerBody t) = Panicked reflect_panic"

fun run_options :: "msg_option list \<Rightarrow> instant \<Rightarrow> Message \<Rightarrow> (err + Message) outcome" where
  "run_options [] t msg = Returned (Inr msg)"
| "run_options (opt # opts) t msg = (case opt t msg of
     Panicked p \<Rightarrow> Panicked p
   | Returned (Some e, msg') \<Rightarrow> Returned (Inl (WrapError ''failed to run message options'' (Some e)))
   | Returned (None, msg') \<Rightarrow> run_options opts t msg')"

definition ToServiceBusMessage ::
  "sender_config \<Rightarrow> injector \<Rightarrow> Context \<Rightarrow> MessageBody \<Rightarrow> msg_option list \<Rightarrow> instant \<Rightarrow> (err + Message) outcome" where
  "ToServiceBusMessage d pgt ctx mb options t = (case Marshal (cfg_marshaller d) mb of
     Panicked p \<Rightarrow> Panicked p
   | Returned (Inl e) \<Rightarrow> Returned (Inl (WrapError ''failed to marshal original struct into ServiceBus message'' (Some e)))
   | Returned (Inr om) \<Rightarrow> (case getMessageType mb of
       Panicked p \<Rightarrow> Panicked p
     | Returned msgType \<Rightarrow> (case om of
         None \<Rightarrow> Panicked (RuntimeError ''invalid memory address or nil pointer dereference'')
       | Some msg \<Rightarrow>
           let msg = msg\<lparr>AppProperties := Some [msgTypeField \<mapsto> PStr msgType]\<rparr>;
               options = (if cfg_propagate d then options @ [WithTracePropagation pgt ctx] else options)
           in run_options options t msg)))"

section \<open>Waiting for a call or for the context\<close>

text \<open>The calls the sender makes, in order, its metrics included. An attempt to send is recorded with the way its \<open>select\<close> ended.\<close>

datatype reply = Replied "err option" | CtxDone err

datatype 'b send_event =
    EvNewBatch Context "err option"
  | EvSendBatch Context 'b reply
  | EvSendMessage Context Message reply
  | EvSendMetric sender_metric

record 'b sworld =
  snow :: instant
  sevents :: "'b send_event list"

text \<open>
  The client library: the sender's three methods (answer and time taken), the batch methods, and for a
  \<open>select\<close> whose two branches become ready at the same instant the choice Go makes.
\<close>

record 'b az_sender =
  az_NewMessageBatch :: "Context \<Rightarrow> 'b sworld \<Rightarrow> (err + 'b) \<times> nat"
  az_SendMessageBatch :: "Context \<Rightarrow> 'b \<Rightarrow> 'b sworld \<Rightarrow> err option \<times> nat"
  az_SendMessage :: "Context \<Rightarrow> Message \<Rightarrow> 'b sworld \<Rightarrow> err option \<times> nat"
  AddMessage :: "'b \<Rightarrow> Message \<Rightarrow> err option \<times> 'b"
  NumMessages :: "'b \<Rightarrow> nat"
  prefer_done :: "'b sworld \<Rightarrow> bool"

text \<open>
  The call starts at \<open>t\<close> in its own goroutine and answers \<open>r\<close> after \<open>d\<close>; the context becomes done when it does,
  at the earliest now.
\<close>

definition await :: "Context \<Rightarrow> bool \<Rightarrow> instant \<Rightarrow> err option \<times> nat \<Rightarrow> reply \<times> instant" where
  "await ctx tie t rd = (case rd of (r, d) \<Rightarrow>
     let t_reply = t + int d in
     case ctx_done_at ctx of
       None \<Rightarrow> (Replied r, t_reply)
     | Some td \<Rightarrow>
        (let t_done = max t td in
         if t_done < t_reply \<or> t_done = t_reply \<and> tie
         then (CtxDone (the (ctx_Err ctx t_done)), t_done)
         else (Replied r, t_reply)))"

definition sadd :: "'b send_event list \<Rightarrow> 'b sworld \<Rightarrow> 'b sworld" where
  "sadd es w = w\<lparr>sevents := sevents w @ es\<rparr>"

fun reply_metric :: "reply \<Rightarrow> sender_metric" where
  "reply_metric (Replied None) = IncSendMessageSuccessCount"
| "reply_metric _ = IncSendMessageFailureCount"

fun reply_error :: "string \<Rightarrow> reply \<Rightarrow> err option" where
  "reply_error what (Replied None) = None"
| "reply_error what (Replied (Some e)) = Some (WrapError what (Some e))"
| "reply_error what (CtxDone e) = Some (WrapError what (Some e))"

section \<open>SendMessage\<close>

definition with_send_timeout :: "sender_config \<Rightarrow> Context \<Rightarrow> instant \<Rightarrow> Context" where
  "with_send_timeout d ctx t = (if cfg_timeout d > 0 then WithTimeout ctx t (cfg_timeout d) else ctx)"

definition SendMessage ::
  "'b az_sender \<Rightarrow> sender_config \<Rightarrow> injector \<Rightarrow> Context \<Rightarrow> MessageBody \<Rightarrow> msg_option list \<Rightarrow> 'b sworld
   \<Rightarrow> err option outcome \<times> 'b sworld" where
  "SendMessage az d pgt ctx mb options w =
     (case ctx_Err ctx (snow w) of
        Some e \<Rightarrow> (Returned (Some (WrapError ''failed to send message'' (Some e))), w)
      | None \<Rightarrow>
        (case ToServiceBusMessage d pgt ctx mb options (snow w) of
           Panicked p \<Rightarrow> (Panicked p, w)
         | Returned (Inl e) \<Rightarrow> (Returned (Some e), w)
         | Returned (Inr msg) \<Rightarrow>
            (let ctx = with_send_timeout d ctx (snow w);
                 (rep, t) = await ctx (prefer_done az w) (snow w) (az_SendMessage az ctx msg w);
                 w = sadd [EvSendMessage ctx msg rep, EvSendMetric (reply_metric rep)] (w\<lparr>snow := t\<rparr>)
             in (Returned (reply_error ''failed to send message'' rep), w))))"

section \<open>SendAsBatch\<close>

definition newMessageBatch :: "'b az_sender \<Rightarrow> Context \<Rightarrow> 'b sworld \<Rightarrow> (err + 'b) \<times> 'b sworld" where
  "newMessageBatch az ctx w = (case az_NewMessageBatch az ctx w of (r, d) \<Rightarrow>
     (r, sadd [EvNewBatch ctx (case r of Inl e \<Rightarrow> Some e | Inr b \<Rightarrow> None)] (w\<lparr>snow := snow w + int d\<rparr>)))"

definition sendBatch :: "'b az_sender \<Rightarrow> Context \<Rightarrow> 'b \<Rightarrow> 'b sworld \<Rightarrow> err option \<times> 'b sworld" where
  "sendBatch az ctx batch w =
     (let (rep, t) = await ctx (prefer_done az w) (snow w) (az_SendMessageBatch az ctx batch w)
      in (reply_error ''failed to send message batch'' rep,
          sadd [EvSendBatch ctx batch rep, EvSendMetric (reply_metric rep)] (w\<lparr>snow := t\<rparr>)))"

text \<open>
  The loop over the messages still to be added (\<open>messages[i:]\<close>): rewinding the counter is going round again
  with the same rest. On fuel; \<open>None\<close> means the fuel ran out.
\<close>

fun batch_loop ::
  "nat \<Rightarrow> 'b az_sender \<Rightarrow> bool \<Rightarrow> Context \<Rightarrow> Message list \<Rightarrow> 'b \<Rightarrow> 'b sworld \<Rightarrow> (err option \<times> 'b sworld) option" where
  "batch_loop 0 az multi ctx ms batch w = None"
| "batch_loop (Suc fuel) az multi ctx [] batch w =
     (if NumMessages az batch > 0 then Some (sendBatch az ctx batch w) else Some (None, w))"
| "batch_loop (Suc fuel) az multi ctx (m # ms) batch w =
     (case AddMessage az batch m of
        (None, batch') \<Rightarrow> batch_loop fuel az multi ctx ms batch' w
      | (Some e, batch') \<Rightarrow>
         (if errors_Is is_too_large e then
            (if NumMessages az batch' = 0 then
               Some (Some (WrapError ''single message is too large to be sent in a batch'' (Some e)), w)
             else if \<not> multi then Some (Some (WrapError ''messages do not fit in a single batch'' (Some e)), w)
             else (case sendBatch az ctx batch' w of
                 (Some e', w') \<Rightarrow> Some (Some e', w')
               | (None, w') \<Rightarrow> (case newMessageBatch az ctx w' of
                     (Inl e', w'') \<Rightarrow> Some (Some e', w'')
                   | (Inr newBatch, w'') \<Rightarrow> batch_loop fuel az multi ctx (m # ms) newBatch w'')))
          else Some (Some e, w)))"

definition SendAsBatch ::
  "nat \<Rightarrow> 'b az_sender \<Rightarrow> sender_config \<Rightarrow> Context \<Rightarrow> Message list \<Rightarrow> SendAsBatchOptions option \<Rightarrow> 'b sworld
   \<Rightarrow> (err option \<times> 'b sworld) option" where
  "SendAsBatch fuel az d ctx messages options w =
     (case ctx_Err ctx (snow w) of
        Some e \<Rightarrow> Some (Some (WrapError ''failed to send message batch'' (Some e)), w)
      | None \<Rightarrow>
        (let multi = (case options of None \<Rightarrow> False | Some o' \<Rightarrow> AllowMultipleBatch o');
             ctx = with_send_timeout d ctx (snow w)
         in if messages = [] then Some (Some (NewError ''cannot send empty message array''), w)
            else (case newMessageBatch az ctx w of
                (Inl e, w') \<Rightarrow> Some (Some e, w')
              | (Inr batch, w') \<Rightarrow> batch_loop fuel az multi ctx messages batch w')))"

definition SendMessageBatch ::
  "nat \<Rightarrow> 'b az_sender \<Rightarrow> sender_config \<Rightarrow> Context \<Rightarrow> Message list \<Rightarrow> 'b sworld \<Rightarrow> (err option \<times> 'b sworld) option" where
  "SendMessageBatch fuel az d ctx messages w =
     SendAsBatch fuel az d ctx messages (Some \<lparr>AllowMultipleBatch = False\<rparr>) w"

section \<open>What the batches promise\<close>

text \<open>
  Documented behaviour of the client library's batches, with \<open>contents\<close> the messages in a batch: a new batch is empty,
  adding a message appends it or fails and leaves the batch as it was, the count is the number of messages.
\<close>

definition batch_laws :: "'b az_sender \<Rightarrow> ('b \<Rightarrow> Message list) \<Rightarrow> bool" where
  "batch_laws az contents \<longleftrightarrow>
     (\<forall>ctx w b d. az_NewMessageBatch az ctx w = (Inr b, d) \<longrightarrow> contents b = [])
     \<and> (\<forall>b m b'. AddMessage az b m = (None, b') \<longrightarrow> contents b' = contents b @ [m])
     \<and> (\<forall>b m e b'. AddMessage az b m = (Some e, b') \<longrightarrow> contents b' = contents b)
     \<and> (\<forall>b. NumMessages az b = length (contents b))"

lemma batch_lawsD:
  assumes "batch_laws az contents"
  shows "az_NewMessageBatch az ctx w = (Inr b, d) \<Longrightarrow> contents b = []"
    and "AddMessage az b m = (None, b') \<Longrightarrow> contents b' = contents b @ [m]"
    and "AddMessage az b m = (Some e, b') \<Longrightarrow> contents b' = contents b"
    and "NumMessages az b = length (contents b)"
  using assms unfolding batch_laws_def by blast+

fun attempt_of :: "'b send_event \<Rightarrow> (Context \<times> 'b \<times> reply) option" where
  "attempt_of (EvSendBatch c b r) = Some (c, b, r)"
| "attempt_of _ = None"

fun send_metric_of :: "'b send_event \<Rightarrow> sender_metric option" where
  "send_metric_of (EvSendMetric m) = Some m"
| "send_metric_of _ = None"

definition attempts :: "'b sworld \<Rightarrow> (Context \<times> 'b \<times> reply) list" where
  "attempts w = List.map_filter attempt_of (sevents w)"

definition send_metrics :: "'b sworld \<Rightarrow> sender_metric list" where
  "send_metrics w = List.map_filter send_metric_of (sevents w)"

abbreviation attempt_ctx :: "Context \<times> 'b \<times> reply \<Rightarrow> Context" where
  "attempt_ctx a \<equiv> fst a"

abbreviation attempt_batch :: "Context \<times> 'b \<times> reply \<Rightarrow> 'b" where
  "attempt_batch a \<equiv> fst (snd a)"

abbreviation attempt_reply :: "Context \<times> 'b \<times> reply \<Rightarrow> reply" where
  "attempt_reply a \<equiv> snd (snd a)"

abbreviation accepted :: "Context \<times> 'b \<times> reply \<Rightarrow> bool" where
  "accepted a \<equiv> attempt_reply a = Replied None"

text \<open>The messages handed to the broker, in the order of the attempts.\<close>

definition handed_over :: "('b \<Rightarrow> Message list) \<Rightarrow> (Context \<times> 'b \<times> reply) list \<Rightarrow> Message list" where
  "handed_over contents ats = concat (map (\<lambda>a. contents (attempt_batch a)) ats)"

text \<open>
  How sending \<open>todo\<close> may go: no batch is empty, what is handed over is an initial part of \<open>todo\<close>, only the last attempt may
  have failed, the result is nil exactly when everything was handed over and accepted, and a single batch holds everything or is not sent.
\<close>

definition delivery :: "('b \<Rightarrow> Message list) \<Rightarrow> Context \<Rightarrow> bool \<Rightarrow> Message list \<Rightarrow> err option \<Rightarrow> (Context \<times> 'b \<times> reply) list \<Rightarrow> bool" where
  "delivery contents ctx multi todo r ats \<longleftrightarrow>
     list_all (\<lambda>a. attempt_ctx a = ctx \<and> contents (attempt_batch a) \<noteq> []) ats
     \<and> (\<exists>rest. todo = handed_over contents ats @ rest)
     \<and> list_all accepted (butlast ats)
     \<and> (r = None \<longleftrightarrow> list_all accepted ats \<and> handed_over contents ats = todo)
     \<and> (\<not> multi \<longrightarrow> length ats \<le> 1 \<and> (ats \<noteq> [] \<longrightarrow> handed_over contents ats = todo))"

lemma delivery_none: "todo \<noteq> [] \<Longrightarrow> delivery contents ctx multi todo (Some e) []"
  by (simp add: delivery_def handed_over_def)

lemma delivery_last:
  "todo \<noteq> [] \<Longrightarrow> contents b = todo \<Longrightarrow> (r = None \<longleftrightarrow> rep = Replied None)
     \<Longrightarrow> delivery contents ctx multi todo r [(ctx, b, rep)]"
  by (simp add: delivery_def handed_over_def)

lemma delivery_stop:
  "contents b \<noteq> [] \<Longrightarrow> rest \<noteq> [] \<Longrightarrow> delivery contents ctx True (contents b @ rest) (Some e) [(ctx, b, rep)]"
  by (simp add: delivery_def handed_over_def)

lemma delivery_Cons:
  assumes "contents b \<noteq> []" and "delivery contents ctx True todo r ats"
  shows "delivery contents ctx True (contents b @ todo) r ((ctx, b, Replied None) # ats)"
  using assms by (auto simp: delivery_def handed_over_def)

section \<open>Lemmas: attempts\<close>

lemma attempts_sadd [simp]:
  "attempts (sadd es w) = attempts w @ List.map_filter attempt_of es"
  "send_metrics (sadd es w) = send_metrics w @ List.map_filter send_metric_of es"
  "attempts (w\<lparr>snow := t\<rparr>) = attempts w" "send_metrics (w\<lparr>snow := t\<rparr>) = send_metrics w"
  by (simp_all add: attempts_def send_metrics_def sadd_def List.map_filter_def)

lemma reply_error_None: "reply_error what rep = None \<longleftrightarrow> rep = Replied None"
  by (cases "(what, rep)" rule: reply_error.cases) simp_all

lemma sendBatch_attempt:
  assumes "sendBatch az ctx b w = (r, w')"
  obtains rep where "attempts w' = attempts w @ [(ctx, b, rep)]" "r = None \<longleftrightarrow> rep = Replied None"
    "send_metrics w' = send_metrics w @ [reply_metric rep]"
  using assms
  by (auto simp: sendBatch_def List.map_filter_def reply_error_None split: prod.splits)

lemma newMessageBatch_silent:
  assumes "newMessageBatch az ctx w = (r, w')"
  shows "attempts w' = attempts w" and "send_metrics w' = send_metrics w"
  using assms by (auto simp: newMessageBatch_def List.map_filter_def split: prod.splits)

lemma newMessageBatch_empty:
  assumes "batch_laws az contents" and "newMessageBatch az ctx w = (Inr b, w')"
  shows "contents b = []"
  using assms(2) batch_lawsD(1) [OF assms(1)] by (auto simp: newMessageBatch_def split: prod.splits)

section \<open>Lemmas: the loop\<close>

lemma batch_loop_delivery:
  assumes laws: "batch_laws az contents" and "batch_loop fuel az multi ctx ms b w = Some (r, w')"
    and "contents b @ ms \<noteq> []"
  shows "\<exists>ats. attempts w' = attempts w @ ats
     \<and> send_metrics w' = send_metrics w @ map (\<lambda>a. reply_metric (attempt_reply a)) ats
     \<and> delivery contents ctx multi (contents b @ ms) r ats"
  using assms(2,3)
proof (induction fuel arbitrary: ms b w)
  case (Suc fuel)
  show ?case
  proof (cases ms)
    case Nil
    with Suc.prems batch_lawsD(4) [OF laws] have "sendBatch az ctx b w = (r, w')" by (simp split: if_splits)
    then obtain rep where rep: "attempts w' = attempts w @ [(ctx, b, rep)]" "r = None \<longleftrightarrow> rep = Replied None"
      "send_metrics w' = send_metrics w @ [reply_metric rep]" by (rule sendBatch_attempt)
    have "delivery contents ctx multi (contents b @ ms) r [(ctx, b, rep)]"
      using Nil Suc.prems(2) rep(2) by (intro delivery_last) simp_all
    with rep show ?thesis by (intro exI [of _ "[(ctx, b, rep)]"]) simp
  next
    case (Cons m ms')
    obtain oe b' where add: "AddMessage az b m = (oe, b')" by (cases "AddMessage az b m")
    show ?thesis
    proof (cases oe)
      case None
      with add have "contents b' = contents b @ [m]" by (simp add: batch_lawsD [OF laws])
      with None add Cons Suc.prems Suc.IH [of ms' b' w] show ?thesis by simp
    next
      case (Some e)
      with add have same: "contents b' = contents b" by (simp add: batch_lawsD [OF laws])
      have num: "NumMessages az b' = length (contents b)" by (simp add: batch_lawsD(4) [OF laws] same)
      show ?thesis
      proof (cases "errors_Is is_too_large e \<and> contents b \<noteq> [] \<and> multi")
        case False
        with Some add Cons Suc.prems(1) num have "w' = w" "r \<noteq> None" by (auto split: if_splits)
        with Cons show ?thesis by (intro exI [of _ "[]"]) (auto intro: delivery_none)
      next
        case True
        obtain r1 w1 where send: "sendBatch az ctx b' w = (r1, w1)" by (cases "sendBatch az ctx b' w")
        then obtain rep where rep: "attempts w1 = attempts w @ [(ctx, b', rep)]" "r1 = None \<longleftrightarrow> rep = Replied None"
          "send_metrics w1 = send_metrics w @ [reply_metric rep]" by (rule sendBatch_attempt)
        obtain nb w2 where new: "newMessageBatch az ctx w1 = (nb, w2)" by (cases "newMessageBatch az ctx w1")
        note silent = newMessageBatch_silent [OF new]
        have stop: "delivery contents ctx multi (contents b @ ms) (Some e') [(ctx, b', rep)]" for e'
          using True Cons same delivery_stop [of contents b' ms ctx e' rep] by simp
        show ?thesis
        proof (cases "r1 = None \<and> (\<exists>b2. nb = Inr b2)")
          case False
          with True Some add Cons Suc.prems(1) num send new
          have "r \<noteq> None \<and> (w' = w1 \<or> w' = w2)"
            by (auto split: option.splits sum.splits)
          with rep silent stop show ?thesis
            by (intro exI [of _ "[(ctx, b', rep)]"]) auto
        next
          case cont: True
          then obtain b2 where b2: "nb = Inr b2" by blast
          with new have "contents b2 = []" using newMessageBatch_empty [OF laws] by blast
          moreover from cont b2 True Some add Cons Suc.prems(1) num send new
          have "batch_loop fuel az multi ctx ms b2 w2 = Some (r, w')" by auto
          ultimately obtain ats where ats: "attempts w' = attempts w2 @ ats"
            "send_metrics w' = send_metrics w2 @ map (\<lambda>a. reply_metric (attempt_reply a)) ats"
            "delivery contents ctx multi ms r ats"
            using Suc.IH [of ms b2 w2] Cons by auto
          have "rep = Replied None" using cont rep(2) by simp
          moreover have "delivery contents ctx multi (contents b @ ms) r ((ctx, b', Replied None) # ats)"
            using ats(3) True same delivery_Cons [of contents b' ctx ms r ats] by simp
          ultimately show ?thesis using ats rep silent
            by (intro exI [of _ "(ctx, b', Replied None) # ats"]) simp
        qed
      qed
    qed
  qed
qed simp

text \<open>Fuel: each message is added once and at most once makes the loop start a new batch.\<close>

lemma batch_loop_enough_fuel:
  assumes laws: "batch_laws az contents"
    and "2 * length ms + (if contents b = [] then 0 else 1) < fuel"
  shows "\<exists>r. batch_loop fuel az multi ctx ms b w = Some r"
  using assms(2)
proof (induction fuel arbitrary: ms b w)
  case (Suc fuel)
  show ?case
  proof (cases ms)
    case (Cons m ms')
    obtain oe b' where add: "AddMessage az b m = (oe, b')" by (cases "AddMessage az b m")
    have num: "NumMessages az b' = length (contents b')" by (rule batch_lawsD(4) [OF laws])
    show ?thesis
    proof (cases oe)
      case None
      with add Cons Suc.prems Suc.IH [of ms' b' w] show ?thesis by (auto split: if_splits)
    next
      case (Some e)
      with add have same: "contents b' = contents b" by (simp add: batch_lawsD [OF laws])
      have retry: "\<exists>r. batch_loop fuel az multi ctx ms b2 w2 = Some r"
        if "newMessageBatch az ctx w1 = (Inr b2, w2)" "contents b \<noteq> []" for w1 b2 w2
        using that Suc.prems Suc.IH [of ms b2 w2] newMessageBatch_empty [OF laws that(1)] by simp
      with Some add Cons same num show ?thesis
        by (auto split: option.splits sum.splits prod.splits)
    qed
  qed simp
qed simp

section \<open>Lemmas: waiting\<close>

lemma await_cases:
  assumes "await ctx tie t (r, d) = (rep, t')"
  obtains (replied) "rep = Replied r" "t' = t + int d" "\<forall>td. ctx_done_at ctx = Some td \<longrightarrow> t' \<le> max t td"
  | (gave_up) e td where "rep = CtxDone e" "ctx_done_at ctx = Some td" "t' = max t td" "t' \<le> t + int d"
      "ctx_Err ctx t' = Some e"
proof (cases "ctx_done_at ctx")
  case None
  with assms show thesis by (intro replied) (simp_all add: await_def)
next
  case (Some td)
  show thesis
  proof (cases "max t td < t + int d \<or> max t td = t + int d \<and> tie")
    case True
    have "\<exists>e. ctx_Err ctx (max t td) = Some e" using Some by (auto simp: ctx_Err_def reached_def)
    then obtain e where "ctx_Err ctx (max t td) = Some e" by blast
    with True Some assms show thesis by (intro gave_up [of e td]) (auto simp: await_def Let_def)
  next
    case False
    with Some assms have "rep = Replied r" "t' = t + int d" by (simp_all only: await_def Let_def option.case prod.case if_False prod.inject)
    with False Some show thesis by (intro replied) auto
  qed
qed

lemma with_send_timeout_done:
  assumes "cfg_timeout d > 0"
  shows "\<exists>td. ctx_done_at (with_send_timeout d ctx t) = Some td \<and> td \<le> t + cfg_timeout d"
  using assms by (cases "ctx_deadline ctx"; cases "ctx_cancelled ctx")
    (auto simp: with_send_timeout_def ctx_done_at_def WithTimeout_def)

lemma with_send_timeout_live:
  assumes "ctx_Err ctx t = None" and "ctx_done_at (with_send_timeout d ctx t) = Some td"
  shows "t < td"
  using assms by (cases "ctx_done_at ctx")
    (auto simp: with_send_timeout_def ctx_done_at_WithTimeout ctx_Err_None_iff reached_def min_opt_def split: if_splits)

text \<open>
  Which of two came first: the broker's answer (\<open>rd\<close>: what it is and how long it takes), given no later than the
  context was done, or the end of the context, with its error, no later than the answer.
\<close>

definition first_came :: "Context \<Rightarrow> instant \<Rightarrow> err option \<times> nat \<Rightarrow> reply \<Rightarrow> instant \<Rightarrow> bool" where
  "first_came ctx t rd rep t' \<longleftrightarrow>
     rep = Replied (fst rd) \<and> t' = t + int (snd rd) \<and> (ctx_done_at ctx = None \<or> (\<exists>td. ctx_done_at ctx = Some td \<and> t' \<le> td))
     \<or> (\<exists>e. rep = CtxDone e \<and> ctx_done_at ctx = Some t' \<and> ctx_Err ctx t' = Some e \<and> t' \<le> t + int (snd rd))"

lemma await_first_came:
  assumes "await ctx tie t rd = (rep, t')" and "\<And>td. ctx_done_at ctx = Some td \<Longrightarrow> t < td"
  shows "first_came ctx t rd rep t'"
proof -
  from assms(1) have "await ctx tie t (fst rd, snd rd) = (rep, t')" by simp
  then show ?thesis
  proof (cases rule: await_cases)
    case replied
    with assms(2) show ?thesis by (cases "ctx_done_at ctx") (auto simp: first_came_def max_def)
  next
    case (gave_up e td)
    with assms(2) [of td] show ?thesis by (auto simp: first_came_def)
  qed
qed

lemma first_came_time:
  assumes "first_came (with_send_timeout d ctx t) t rd rep t'" and "ctx_Err ctx t = None"
  shows "t \<le> t'" and "0 < cfg_timeout d \<Longrightarrow> t' \<le> t + cfg_timeout d"
  using assms with_send_timeout_done [of d ctx t] with_send_timeout_live [of ctx t d] by (auto simp: first_came_def less_imp_le)

section \<open>Lemmas: building a message\<close>

text \<open>The options the repository provides, trace propagation under a given propagator included.\<close>

inductive builtin_option :: "injector \<Rightarrow> msg_option \<Rightarrow> bool" for pgt where
  "builtin_option pgt (SetMessageId i)"
| "builtin_option pgt (SetCorrelationId i)"
| "builtin_option pgt (SetScheduleAt t)"
| "builtin_option pgt (SetMessageDelay dl)"
| "builtin_option pgt (SetMessageTTL dl)"
| "builtin_option pgt (SetSubject x)"
| "builtin_option pgt (SetTo x)"
| "builtin_option pgt (WithTracePropagation pgt ctx)"

lemmas option_defs = SetMessageId_def SetCorrelationId_def SetScheduleAt_def SetMessageDelay_def SetMessageTTL_def
  SetSubject_def SetTo_def WithTracePropagation_def

text \<open>The propagator writes its own keys, not the message type.\<close>

definition spares_type :: "injector \<Rightarrow> bool" where
  "spares_type pgt = (\<forall>ctx. msgTypeField \<notin> fst ` set (pgt ctx))"

definition type_prop :: "Message \<Rightarrow> prop_value option" where
  "type_prop msg = (case AppProperties msg of None \<Rightarrow> None | Some ps \<Rightarrow> ps msgTypeField)"

definition same_payload :: "Message \<Rightarrow> Message \<Rightarrow> bool" where
  "same_payload msg msg' \<longleftrightarrow> Body msg' = Body msg \<and> ContentType msg' = ContentType msg \<and> type_prop msg' = type_prop msg"

lemma type_prop_Set: "k \<noteq> msgTypeField \<Longrightarrow> type_prop (messageWrapper_Set k v msg) = type_prop msg"
  by (auto simp: type_prop_def messageWrapper_Set_def props_Set_def Let_def split: option.splits)

lemma Inject_type:
  assumes "spares_type pgt"
  shows "type_prop (Inject pgt ctx msg) = type_prop msg"
proof -
  have "msgTypeField \<notin> fst ` set kvs \<Longrightarrow> type_prop (fold (\<lambda>(k, v). messageWrapper_Set k v) kvs msg) = type_prop msg" for kvs
    by (induction kvs arbitrary: msg) (auto simp: type_prop_Set)
  with assms show ?thesis by (simp add: Inject_def spares_type_def)
qed

lemma type_prop_Get: "type_prop msg = Some (PStr ty) \<Longrightarrow> messageWrapper_Get msgTypeField msg = Returned ty"
  by (auto simp: type_prop_def messageWrapper_Get_def props_Get_def split: option.splits)

lemma builtin_option_step:
  assumes "builtin_option pgt opt" and "spares_type pgt"
  shows "\<exists>msg'. opt t msg = Returned (None, msg') \<and> same_payload msg msg'"
  using assms by (cases rule: builtin_option.cases)
    (auto simp: option_defs same_payload_def Inject_type, simp_all add: type_prop_def)

lemma run_builtin_options:
  assumes "list_all (builtin_option pgt) opts" and "spares_type pgt"
  shows "\<exists>msg'. run_options opts t msg = Returned (Inr msg') \<and> same_payload msg msg'"
  using assms(1)
proof (induction opts arbitrary: msg)
  case (Cons opt opts)
  then obtain msg1 where msg1: "opt t msg = Returned (None, msg1)" "same_payload msg msg1"
    using builtin_option_step [OF _ assms(2), of opt t msg] by auto
  moreover from Cons obtain msg2 where "run_options opts t msg1 = Returned (Inr msg2)" "same_payload msg1 msg2" by auto
  ultimately show ?case by (auto simp: same_payload_def)
qed (simp add: same_payload_def)

lemma run_options_append:
  "run_options (as @ bs) t msg = (case run_options as t msg of Returned (Inr msg') \<Rightarrow> run_options bs t msg' | r \<Rightarrow> r)"
  by (induction as arbitrary: msg) (auto split: outcome.splits option.splits)

section \<open>Properties\<close>

text \<open>
  C3. Sending an array of messages in batches. Apart from the calls refused up front (context already done, empty
  array: an error and nothing sent), the batches handed to the broker are never empty, hold the messages in their
  order without gap or repetition from the first on, and each is sent under the one deadline of the operation. Only the last
  attempt can have failed. The result is nil exactly when all messages were handed over and every batch was accepted.
  Without \<open>AllowMultipleBatch\<close> there is at most one batch, and it holds all the messages. Each attempt is
  counted once, as success or failure.
\<close>

theorem send_as_batch_delivers:
  assumes "batch_laws az contents" and "SendAsBatch fuel az d ctx messages options w = Some (r, w')"
  shows "(ctx_Err ctx (snow w) \<noteq> None \<or> messages = [] \<longrightarrow> r \<noteq> None \<and> w' = w)
    \<and> (\<exists>ats. attempts w' = attempts w @ ats
        \<and> send_metrics w' = send_metrics w @ map (\<lambda>a. reply_metric (attempt_reply a)) ats
        \<and> (ctx_Err ctx (snow w) = None \<and> messages \<noteq> [] \<longrightarrow>
             delivery contents (with_send_timeout d ctx (snow w))
               (case options of None \<Rightarrow> False | Some o' \<Rightarrow> AllowMultipleBatch o') messages r ats))"
proof (cases "ctx_Err ctx (snow w) \<noteq> None \<or> messages = []")
  case True
  with assms(2) have "r \<noteq> None \<and> w' = w" by (auto simp: SendAsBatch_def split: option.splits)
  with True show ?thesis by auto
next
  case False
  let ?ctx = "with_send_timeout d ctx (snow w)" and ?multi = "case options of None \<Rightarrow> False | Some o' \<Rightarrow> AllowMultipleBatch o'"
  obtain nb w1 where new: "newMessageBatch az ?ctx w = (nb, w1)" by (cases "newMessageBatch az ?ctx w")
  note silent = newMessageBatch_silent [OF new]
  show ?thesis
  proof (cases nb)
    case (Inl e)
    with False new assms(2) have "r = Some e" "w' = w1" by (auto simp: SendAsBatch_def)
    with False silent show ?thesis by (intro conjI exI [of _ "[]"]) (auto intro: delivery_none)
  next
    case (Inr b)
    with new have empty: "contents b = []" using newMessageBatch_empty [OF assms(1)] by blast
    from False Inr new assms(2) have "batch_loop fuel az ?multi ?ctx messages b w1 = Some (r, w')"
      by (auto simp: SendAsBatch_def)
    from batch_loop_delivery [OF assms(1) this] False empty silent show ?thesis by auto
  qed
qed

text \<open>A broker whose batches hold two messages, which accepts every batch at once.\<close>

definition pair_batches :: "Message list az_sender" where
  "pair_batches = \<lparr>az_NewMessageBatch = (\<lambda>_ _. (Inr [], 0)), az_SendMessageBatch = (\<lambda>_ _ _. (None, 1)),
     az_SendMessage = (\<lambda>_ _ _. (None, 1)),
     AddMessage = (\<lambda>b m. if length b < 2 then (None, b @ [m]) else (Some ErrMessageTooLarge, b)),
     NumMessages = length, prefer_done = (\<lambda>_. False)\<rparr>"

definition start_sworld :: "'b sworld" where
  "start_sworld = \<lparr>snow = 0, sevents = []\<rparr>"

abbreviation default_sender :: sender_config where
  "default_sender \<equiv> NewSender (DefaultJSONMarshaller (\<lambda>_. Inr []) (\<lambda>_ mb. Inr mb)) None"

abbreviation tiny :: "8 word \<Rightarrow> Message" where
  "tiny n \<equiv> new_message [n] []"

lemma pair_batches_laws: "batch_laws pair_batches (\<lambda>b. b)"
  by (auto simp: batch_laws_def pair_batches_def split: if_splits)

theorem send_as_batch_delivers_witness:
  "\<exists>w' ats. SendAsBatch 7 pair_batches default_sender Background [tiny 1, tiny 2, tiny 3]
       (Some \<lparr>AllowMultipleBatch = True\<rparr>) start_sworld = Some (None, w')
     \<and> attempts w' = ats \<and> length ats = 2 \<and> handed_over (\<lambda>b. b) ats = [tiny 1, tiny 2, tiny 3]
     \<and> send_metrics w' = [IncSendMessageSuccessCount, IncSendMessageSuccessCount]"
proof -
  obtain r w' where run: "SendAsBatch 7 pair_batches default_sender Background [tiny 1, tiny 2, tiny 3]
       (Some \<lparr>AllowMultipleBatch = True\<rparr>) start_sworld = Some (r, w')" and r: "r = None"
    and len: "length (attempts w') = 2" and ms: "send_metrics w' = [IncSendMessageSuccessCount, IncSendMessageSuccessCount]"
    by (simp add: SendAsBatch_def pair_batches_def start_sworld_def Background_def ctx_Err_def ctx_done_at_def reached_def
        newMessageBatch_def sendBatch_def with_send_timeout_def NewSender_def defaultSendTimeout_def seconds_def
        await_def WithTimeout_def List.map_filter_def eval_nat_numeral attempts_def send_metrics_def sadd_def)
      (simp add: Let_def)
  have "ctx_Err Background (snow (start_sworld :: Message list sworld)) = None" by (simp add: Background_def ctx_Err_def ctx_done_at_def reached_def)
  moreover have "attempts (start_sworld :: Message list sworld) = []" by (simp add: start_sworld_def attempts_def List.map_filter_def)
  ultimately have "handed_over (\<lambda>b. b) (attempts w') = [tiny 1, tiny 2, tiny 3]"
    using send_as_batch_delivers [OF pair_batches_laws run] r by (auto simp: delivery_def)
  with run r len ms show ?thesis by blast
qed

text \<open>
  C17. Sending in batches always ends: two passes of the loop per message are enough, since a message
  that does not fit makes the loop go round once more with an empty batch.
\<close>

theorem send_as_batch_returns:
  assumes "batch_laws az contents" and "2 * length messages < fuel"
  shows "\<exists>r w'. SendAsBatch fuel az d ctx messages options w = Some (r, w')"
proof -
  let ?ctx = "with_send_timeout d ctx (snow w)"
  have "\<exists>r w'. batch_loop fuel az multi ?ctx messages b w1 = Some (r, w')"
    if "newMessageBatch az ?ctx w = (Inr b, w1)" for multi b w1
    using batch_loop_enough_fuel [OF assms(1), of messages b fuel multi ?ctx w1] assms(2)
      newMessageBatch_empty [OF assms(1) that] by auto
  then show ?thesis
    by (auto simp: SendAsBatch_def Let_def split: option.splits prod.splits sum.splits)
qed

theorem send_as_batch_returns_witness:
  "\<exists>r w'. SendAsBatch 5 pair_batches default_sender Background [tiny 1, tiny 2] None start_sworld = Some (r, w')"
  by (rule send_as_batch_returns [OF pair_batches_laws]) simp

text \<open>
  C18. Sending one message, in every case. When the context is already done, \<open>SendMessage\<close> returns its error, wrapped; when
  building the message fails (marshalling or an option), it returns that error; when building it panics, it panics; in these
  three cases nothing is sent or counted and no time passes. In every other case the broker is called exactly once with the built
  message, under the given context with the send timeout when that is positive and under the given context as it is when not (timeout
  disabled); \<open>SendMessage\<close> waits for the broker's answer or the end of that context, whichever is first, returns nil exactly
  when that is the broker's acceptance and else the broker's or the context's error, wrapped; and it counts one success or one failure accordingly. With a
  positive timeout it returns in that time, however long the broker takes.
\<close>

theorem send_message_outcome:
  assumes "SendMessage az d pgt ctx mb options w = (res, w')"
  shows "case ctx_Err ctx (snow w) of
      Some e \<Rightarrow> res = Returned (Some (WrapError ''failed to send message'' (Some e))) \<and> w' = w
    | None \<Rightarrow> (case ToServiceBusMessage d pgt ctx mb options (snow w) of
        Panicked p \<Rightarrow> res = Panicked p \<and> w' = w
      | Returned (Inl e) \<Rightarrow> res = Returned (Some e) \<and> w' = w
      | Returned (Inr msg) \<Rightarrow>
         (\<exists>sctx rep. sctx = (if 0 < cfg_timeout d then WithTimeout ctx (snow w) (cfg_timeout d) else ctx)
            \<and> sevents w' = sevents w @ [EvSendMessage sctx msg rep,
                EvSendMetric (if res = Returned None then IncSendMessageSuccessCount else IncSendMessageFailureCount)]
            \<and> first_came sctx (snow w) (az_SendMessage az sctx msg w) rep (snow w')
            \<and> res = Returned (reply_error ''failed to send message'' rep)
            \<and> (res = Returned None \<longleftrightarrow> rep = Replied None)
            \<and> snow w \<le> snow w' \<and> (0 < cfg_timeout d \<longrightarrow> snow w' \<le> snow w + cfg_timeout d)))"
proof (cases "\<exists>msg. ctx_Err ctx (snow w) = None \<and> ToServiceBusMessage d pgt ctx mb options (snow w) = Returned (Inr msg)")
  case False
  with assms show ?thesis
    by (auto simp: SendMessage_def split: option.splits outcome.splits sum.splits)
next
  case True
  then obtain msg where live: "ctx_Err ctx (snow w) = None"
    and msg: "ToServiceBusMessage d pgt ctx mb options (snow w) = Returned (Inr msg)" by blast
  let ?ctx = "with_send_timeout d ctx (snow w)"
  obtain rep t where aw: "await ?ctx (prefer_done az w) (snow w) (az_SendMessage az ?ctx msg w) = (rep, t)"
    by (cases "await ?ctx (prefer_done az w) (snow w) (az_SendMessage az ?ctx msg w)")
  from assms live msg aw have res: "res = Returned (reply_error ''failed to send message'' rep)"
    "w' = sadd [EvSendMessage ?ctx msg rep, EvSendMetric (reply_metric rep)] (w\<lparr>snow := t\<rparr>)"
    by (auto simp: SendMessage_def)
  have first: "first_came ?ctx (snow w) (az_SendMessage az ?ctx msg w) rep t"
    by (rule await_first_came [OF aw with_send_timeout_live [OF live]])
  have "reply_metric rep = (if res = Returned None then IncSendMessageSuccessCount else IncSendMessageFailureCount)"
    unfolding res(1) by (cases rep rule: reply_metric.cases) auto
  with first_came_time [OF first live] first live msg res show ?thesis
    by (simp add: sadd_def reply_error_None with_send_timeout_def)
qed

text \<open>
  A broker that takes an hour to accept a message: the default sender gives up after thirty seconds, a sender with the
  timeout disabled waits and reports success.
\<close>

definition stuck_broker :: "Message list az_sender" where
  "stuck_broker = pair_batches\<lparr>az_SendMessage := (\<lambda>_ _ _. (None, nat (seconds 3600)))\<rparr>"

definition patient_sender :: sender_config where
  "patient_sender = NewSender (DefaultJSONMarshaller (\<lambda>_. Inr []) (\<lambda>_ mb. Inr mb))
     (Some \<lparr>OptMarshaller = None, EnableTracingPropagation = False, SendTimeout = - 1\<rparr>)"

theorem send_message_outcome_witness:
  "(\<exists>res w'. SendMessage stuck_broker default_sender (\<lambda>_. []) Background (ValueBody ''Order'' 1) [] start_sworld = (res, w')
     \<and> res \<noteq> Returned None \<and> length (sevents w') = 2 \<and> snow w' \<le> seconds 30)
   \<and> (\<exists>res w'. SendMessage stuck_broker patient_sender (\<lambda>_. []) Background (ValueBody ''Order'' 1) [] start_sworld = (res, w')
     \<and> res = Returned None \<and> length (sevents w') = 2 \<and> snow w' = seconds 3600)"
proof
  let ?msg = "(new_message [] jsonContentType)\<lparr>AppProperties := Some [msgTypeField \<mapsto> PStr ''Order'']\<rparr>"
  have live: "ctx_Err Background (snow (start_sworld :: Message list sworld)) = None" "ctx_done_at Background = None"
    by (simp_all add: Background_def ctx_Err_def ctx_done_at_def reached_def)
  have "ToServiceBusMessage d (\<lambda>_. []) Background (ValueBody ''Order'' 1) [] t = Returned (Inr ?msg)"
    if "d = default_sender \<or> d = patient_sender" for d t
    using that by (auto simp: ToServiceBusMessage_def NewSender_def patient_sender_def DefaultJSONMarshaller_def json_Marshal_def)
  then have built: "ToServiceBusMessage default_sender (\<lambda>_. []) Background (ValueBody ''Order'' 1) [] t = Returned (Inr ?msg)"
    "ToServiceBusMessage patient_sender (\<lambda>_. []) Background (ValueBody ''Order'' 1) [] t = Returned (Inr ?msg)" for t
    by blast+
  have cfg: "cfg_timeout default_sender = seconds 30" "cfg_timeout patient_sender = - 1"
    "snow (start_sworld :: Message list sworld) = 0" "sevents (start_sworld :: Message list sworld) = []" "0 < seconds 30"
    by (simp_all add: NewSender_def patient_sender_def defaultSendTimeout_def seconds_def start_sworld_def)
  have slow: "az_SendMessage stuck_broker c m w = (None, nat (seconds 3600))" for c m w by (simp add: stuck_broker_def)
  obtain res w' where run: "SendMessage stuck_broker default_sender (\<lambda>_. []) Background (ValueBody ''Order'' 1) [] start_sworld = (res, w')"
    by (cases "SendMessage stuck_broker default_sender (\<lambda>_. []) Background (ValueBody ''Order'' 1) [] start_sworld")
  from send_message_outcome [OF run] live built cfg slow run
  show "\<exists>res w'. SendMessage stuck_broker default_sender (\<lambda>_. []) Background (ValueBody ''Order'' 1) [] start_sworld = (res, w')
     \<and> res \<noteq> Returned None \<and> length (sevents w') = 2 \<and> snow w' \<le> seconds 30"
    by (auto simp: first_came_def seconds_def)
  obtain res w' where run: "SendMessage stuck_broker patient_sender (\<lambda>_. []) Background (ValueBody ''Order'' 1) [] start_sworld = (res, w')"
    by (cases "SendMessage stuck_broker patient_sender (\<lambda>_. []) Background (ValueBody ''Order'' 1) [] start_sworld")
  from send_message_outcome [OF run] live built cfg slow run
  show "\<exists>res w'. SendMessage stuck_broker patient_sender (\<lambda>_. []) Background (ValueBody ''Order'' 1) [] start_sworld = (res, w')
     \<and> res = Returned None \<and> length (sevents w') = 2 \<and> snow w' = seconds 3600"
    by (auto simp: first_came_def seconds_def)
qed

text \<open>
  C37. What is put on the bus. With a default marshaller and the repository's own options (in any order and
  number, with or without trace propagation) a body that marshals and is neither nil nor a nil pointer gives a message with the
  marshalled bytes, the marshaller's content type and the property \<open>type\<close> naming the body's type; unmarshalling that
  message gives what unmarshalling the bytes gives.
\<close>

theorem message_carries_body_and_type:
  assumes "mar = DefaultJSONMarshaller enc dec \<or> mar = DefaultProtoMarshaller is_proto enc dec"
    and "cfg_marshaller d = mar" and "Marshal mar mb = Returned (Inr (Some msg0))" and "getMessageType mb = Returned ty"
    and "list_all (builtin_option pgt) options" and "spares_type pgt"
  shows "\<exists>msg. ToServiceBusMessage d pgt ctx mb options t = Returned (Inr msg)
     \<and> Body msg = Body msg0 \<and> ContentType msg = Some (MarContentType mar)
     \<and> messageWrapper_Get msgTypeField msg = Returned ty
     \<and> Unmarshal mar msg target = Unmarshal mar msg0 target"
proof -
  let ?opts = "if cfg_propagate d then options @ [WithTracePropagation pgt ctx] else options"
  let ?msg1 = "msg0\<lparr>AppProperties := Some [msgTypeField \<mapsto> PStr ty]\<rparr>"
  have "marshaller mar" using assms(1) json.marshaller_axioms protobuf.marshaller_axioms by auto
  note laws = marshaller.marshal_message [OF this assms(3)] marshaller.unmarshal_body [OF this]
  have "list_all (builtin_option pgt) ?opts" using assms(5) by (auto intro: builtin_option.intros)
  from run_builtin_options [OF this assms(6)] obtain msg where
    msg: "run_options ?opts t ?msg1 = Returned (Inr msg)" "same_payload ?msg1 msg" by blast
  have "ToServiceBusMessage d pgt ctx mb options t = Returned (Inr msg)"
    using assms(2,3,4) msg(1) by (simp add: ToServiceBusMessage_def Let_def split: if_splits)
  moreover have "ContentType msg0 = Some (MarContentType mar)" using laws(1) by (auto simp: new_message_def)
  moreover have "messageWrapper_Get msgTypeField msg = Returned ty"
    using msg(2) by (intro type_prop_Get) (simp add: same_payload_def type_prop_def)
  ultimately show ?thesis using msg(2) laws(2) [of msg msg0 target] by (auto simp: same_payload_def)
qed

theorem message_carries_body_and_type_witness:
  "\<exists>msg. ToServiceBusMessage (NewSender (DefaultJSONMarshaller (\<lambda>_. Inr [1, 2]) (\<lambda>b mb. Inr mb))
        (Some \<lparr>OptMarshaller = None, EnableTracingPropagation = True, SendTimeout = 0\<rparr>))
      unary_injector (Background\<lparr>ctx_span := Some 3\<rparr>) (PointerBody ''Order'' 1) [SetMessageDelay 5, SetTo ''q''] 7 = Returned (Inr msg)
     \<and> Body msg = [1, 2] \<and> messageWrapper_Get ''type'' msg = Returned ''Order''"
proof -
  let ?mar = "DefaultJSONMarshaller (\<lambda>_. Inr [1, 2]) (\<lambda>b mb. Inr mb)"
  let ?d = "NewSender ?mar (Some \<lparr>OptMarshaller = None, EnableTracingPropagation = True, SendTimeout = 0\<rparr>)"
  have "cfg_marshaller ?d = ?mar" by (simp add: NewSender_def)
  moreover have "Marshal ?mar (PointerBody ''Order'' 1) = Returned (Inr (Some (new_message [1, 2] jsonContentType)))"
    by (simp add: DefaultJSONMarshaller_def json_Marshal_def)
  moreover have "list_all (builtin_option unary_injector) [SetMessageDelay 5, SetTo ''q'']"
    by (simp add: builtin_option.intros)
  moreover have "spares_type unary_injector"
    by (auto simp: spares_type_def unary_injector_def msgTypeField_def split: option.splits)
  ultimately show ?thesis
    using message_carries_body_and_type [of ?mar "\<lambda>_. Inr [1, 2]" "\<lambda>b mb. Inr mb" "\<lambda>_. True" ?d
        "PointerBody ''Order'' 1" "new_message [1, 2] jsonContentType" "''Order''" unary_injector
        "[SetMessageDelay 5, SetTo ''q'']" "Background\<lparr>ctx_span := Some 3\<rparr>" 7 NilBody]
    by (auto simp: new_message_def msgTypeField_def)
qed

text \<open>
  A nil body (or a nil pointer) that the marshaller accepts makes \<open>SendMessage\<close> panic in
  \<open>getMessageType\<close>, before anything is sent or counted.
\<close>

lemma send_nil_body_panics:
  assumes "ctx_Err ctx (snow w) = None" and "Marshal (cfg_marshaller d) mb = Returned (Inr om)"
    and "mb = NilBody \<or> mb = NilPointerBody ty"
  shows "SendMessage az d pgt ctx mb options w = (Panicked reflect_panic, w)"
  using assms by (auto simp: SendMessage_def ToServiceBusMessage_def)

end
