(* ===== verification/SenderLock.thy ===== *)
theory SenderLock
  imports Sender
begin

text \<open>
  The underlying sender of \<^verbatim>\<open>v2/sender.go\<close> behind its \<open>RWMutex\<close>: \<open>sendMessage\<close>, \<open>sendMessageBatch\<close> and
  \<open>newMessageBatch\<close> call it under the read lock, \<open>AzSender\<close> reads it, \<open>SetAzSender\<close> (and \<open>FailOver\<close>) replaces it under the
  write lock. Callers, the goroutines they start for their sends, and setters are interleaved in
  every order. A send's goroutine passes its result over an unbuffered channel to the caller's \<open>select\<close>.
\<close>

section \<open>State\<close>

text \<open>
  A caller of \<open>SendMessage\<close> or \<open>SendAsBatch\<close>: between calls, waiting for the read lock in \<open>newMessageBatch\<close>, inside the client's \<open>NewMessageBatch\<close>
  (with the sender it is called on), in the \<open>select\<close> for a goroutine's result, returned.
\<close>

datatype caller = CReady | CWantBatch | CNewBatch nat | CSelect nat | CReturned

text \<open>A goroutine that sends: before \<open>RLock\<close>, inside the client's call, at the send on \<open>errChan\<close>, ended.\<close>

datatype sgo = GWant | GCall nat | GSend "err option" | GExit

text \<open>
  A call of \<open>SetAzSender\<close>. \<open>Lock\<close> first announces the writer, which holds off new readers, then waits for the readers inside.
\<close>

datatype setter = SWant nat | SPending nat | SHeld nat | SReturned

datatype wlock = WNone | WPending | WHeld

record lstate =
  sbSender :: nat
  mu :: wlock
  callers :: "caller list"
  gos :: "sgo list"
  setters :: "setter list"
  used :: "(nat \<times> nat) list"

definition init_lstate :: "nat \<Rightarrow> lstate" where
  "init_lstate s0 = \<lparr>sbSender = s0, mu = WNone, callers = [], gos = [], setters = [], used = []\<rparr>"

datatype laction =
    StartOp
  | OpNewBatch nat
  | BatchLock nat
  | BatchEnds nat bool
  | OpSend nat
  | GoLock nat
  | GoCallEnds nat "err option"
  | Rendezvous nat bool
  | CtxFires nat
  | OpReturns nat
  | StartSet nat
  | SetAnnounce nat
  | SetAcquire nat
  | SetStore nat

section \<open>Steps\<close>

fun reading_caller :: "caller \<Rightarrow> bool" where
  "reading_caller (CNewBatch s) = True"
| "reading_caller _ = False"

fun reading_go :: "sgo \<Rightarrow> bool" where
  "reading_go (GCall s) = True"
| "reading_go _ = False"

definition no_readers :: "lstate \<Rightarrow> bool" where
  "no_readers s = (list_all (\<lambda>c. \<not> reading_caller c) (callers s) \<and> list_all (\<lambda>g. \<not> reading_go g) (gos s))"

definition caller_at :: "nat \<Rightarrow> caller \<Rightarrow> lstate \<Rightarrow> bool" where
  "caller_at i c s = (i < length (callers s) \<and> callers s ! i = c)"

definition set_caller :: "nat \<Rightarrow> caller \<Rightarrow> lstate \<Rightarrow> lstate" where
  "set_caller i c s = s\<lparr>callers := (callers s)[i := c]\<rparr>"

definition set_go :: "nat \<Rightarrow> sgo \<Rightarrow> lstate \<Rightarrow> lstate" where
  "set_go g x s = s\<lparr>gos := (gos s)[g := x]\<rparr>"

text \<open>\<open>newMessageBatch\<close>: read lock, call, unlock, in the caller's own thread.\<close>

definition batch_lock :: "nat \<Rightarrow> lstate \<Rightarrow> lstate option" where
  "batch_lock i s = (if caller_at i CWantBatch s \<and> mu s = WNone
     then Some ((set_caller i (CNewBatch (sbSender s)) s)\<lparr>used := used s @ [(i, sbSender s)]\<rparr>) else None)"

definition batch_ends :: "nat \<Rightarrow> bool \<Rightarrow> lstate \<Rightarrow> lstate option" where
  "batch_ends i ok s = (if i < length (callers s) \<and> reading_caller (callers s ! i)
     then Some (set_caller i (if ok then CReady else CReturned) s) else None)"

text \<open>\<open>SendMessage\<close> and \<open>sendBatch\<close>: start the goroutine, then \<open>select\<close>.\<close>

definition op_send :: "nat \<Rightarrow> lstate \<Rightarrow> lstate option" where
  "op_send i s = (if caller_at i CReady s
     then Some ((set_caller i (CSelect (length (gos s))) s)\<lparr>gos := gos s @ [GWant]\<rparr>) else None)"

text \<open>\<open>sendMessage\<close>, \<open>sendMessageBatch\<close> in the goroutine. The owner is logged for the specification only.\<close>

definition owner_of :: "nat \<Rightarrow> lstate \<Rightarrow> (nat \<times> nat) list" where
  "owner_of g s = List.map_filter (\<lambda>i. if callers s ! i = CSelect g then Some (i, sbSender s) else None) [0..<length (callers s)]"

definition go_lock :: "nat \<Rightarrow> lstate \<Rightarrow> lstate option" where
  "go_lock g s = (if g < length (gos s) \<and> gos s ! g = GWant \<and> mu s = WNone
     then Some ((set_go g (GCall (sbSender s)) s)\<lparr>used := used s @ owner_of g s\<rparr>) else None)"

definition go_call_ends :: "nat \<Rightarrow> err option \<Rightarrow> lstate \<Rightarrow> lstate option" where
  "go_call_ends g r s = (if g < length (gos s) \<and> reading_go (gos s ! g) then Some (set_go g (GSend r) s) else None)"

text \<open>The two branches of the \<open>select\<close>; \<open>again\<close>: the operation goes on after a success (\<open>SendAsBatch\<close> with more to send).\<close>

definition rendezvous :: "nat \<Rightarrow> bool \<Rightarrow> lstate \<Rightarrow> lstate option" where
  "rendezvous i again s = (if i < length (callers s) then
     (case callers s ! i of
        CSelect g \<Rightarrow> (if g < length (gos s) then
          (case gos s ! g of
             GSend r \<Rightarrow> Some (set_caller i (if r = None \<and> again then CReady else CReturned) (set_go g GExit s))
           | _ \<Rightarrow> None) else None)
      | _ \<Rightarrow> None) else None)"

definition ctx_fires :: "nat \<Rightarrow> lstate \<Rightarrow> lstate option" where
  "ctx_fires i s = (if i < length (callers s) then
     (case callers s ! i of CSelect g \<Rightarrow> Some (set_caller i CReturned s) | _ \<Rightarrow> None) else None)"

text \<open>\<open>SetAzSender\<close>.\<close>

definition set_announce :: "nat \<Rightarrow> lstate \<Rightarrow> lstate option" where
  "set_announce j s = (if j < length (setters s) then
     (case setters s ! j of
        SWant n \<Rightarrow> (if mu s = WNone then Some (s\<lparr>mu := WPending, setters := (setters s)[j := SPending n]\<rparr>) else None)
      | _ \<Rightarrow> None) else None)"

definition set_acquire :: "nat \<Rightarrow> lstate \<Rightarrow> lstate option" where
  "set_acquire j s = (if j < length (setters s) then
     (case setters s ! j of
        SPending n \<Rightarrow> (if no_readers s then Some (s\<lparr>mu := WHeld, setters := (setters s)[j := SHeld n]\<rparr>) else None)
      | _ \<Rightarrow> None) else None)"

definition set_store :: "nat \<Rightarrow> lstate \<Rightarrow> lstate option" where
  "set_store j s = (if j < length (setters s) then
     (case setters s ! j of
        SHeld n \<Rightarrow> Some (s\<lparr>sbSender := n, mu := WNone, setters := (setters s)[j := SReturned]\<rparr>)
      | _ \<Rightarrow> None) else None)"

definition lstep :: "laction \<Rightarrow> lstate \<Rightarrow> lstate option" where
  "lstep a s = (case a of
     StartOp \<Rightarrow> Some (s\<lparr>callers := callers s @ [CReady]\<rparr>)
   | OpNewBatch i \<Rightarrow> (if caller_at i CReady s then Some (set_caller i CWantBatch s) else None)
   | BatchLock i \<Rightarrow> batch_lock i s
   | BatchEnds i ok \<Rightarrow> batch_ends i ok s
   | OpSend i \<Rightarrow> op_send i s
   | GoLock g \<Rightarrow> go_lock g s
   | GoCallEnds g r \<Rightarrow> go_call_ends g r s
   | Rendezvous i again \<Rightarrow> rendezvous i again s
   | CtxFires i \<Rightarrow> ctx_fires i s
   | OpReturns i \<Rightarrow> (if caller_at i CReady s then Some (set_caller i CReturned s) else None)
   | StartSet n \<Rightarrow> Some (s\<lparr>setters := setters s @ [SWant n]\<rparr>)
   | SetAnnounce j \<Rightarrow> set_announce j s
   | SetAcquire j \<Rightarrow> set_acquire j s
   | SetStore j \<Rightarrow> set_store j s)"

text \<open>\<open>AzSender\<close> reads under the read lock: it waits for a writer that is announced or inside.\<close>

definition AzSender :: "lstate \<Rightarrow> nat option" where
  "AzSender s = (if mu s = WNone then Some (sbSender s) else None)"

section \<open>One case per step\<close>

lemma lstep_cases:
  assumes "lstep a s = Some s'"
  obtains (start) "a = StartOp" "s' = s\<lparr>callers := callers s @ [CReady]\<rparr>"
  | (caller) i c where "i < length (callers s)" "s' = set_caller i c s" "\<not> reading_caller c" "\<forall>g. c \<noteq> CSelect g"
  | (batch) i where "i < length (callers s)" "mu s = WNone" "callers s ! i = CWantBatch"
      "s' = (set_caller i (CNewBatch (sbSender s)) s)\<lparr>used := used s @ [(i, sbSender s)]\<rparr>"
  | (send) i where "i < length (callers s)" "callers s ! i = CReady"
      "s' = (set_caller i (CSelect (length (gos s))) s)\<lparr>gos := gos s @ [GWant]\<rparr>"
  | (lock) g where "g < length (gos s)" "gos s ! g = GWant" "mu s = WNone"
      "s' = (set_go g (GCall (sbSender s)) s)\<lparr>used := used s @ owner_of g s\<rparr>"
  | (ends) g r n where "g < length (gos s)" "gos s ! g = GCall n" "s' = set_go g (GSend r) s"
  | (meet) i c g r where "i < length (callers s)" "g < length (gos s)" "callers s ! i = CSelect g" "gos s ! g = GSend r"
      "s' = set_caller i c (set_go g GExit s)" "c = CReady \<or> c = CReturned"
  | (request) n where "s' = s\<lparr>setters := setters s @ [SWant n]\<rparr>"
  | (announce) j n where "j < length (setters s)" "setters s ! j = SWant n" "mu s = WNone"
      "s' = s\<lparr>mu := WPending, setters := (setters s)[j := SPending n]\<rparr>"
  | (acquire) j n where "j < length (setters s)" "setters s ! j = SPending n" "no_readers s"
      "s' = s\<lparr>mu := WHeld, setters := (setters s)[j := SHeld n]\<rparr>"
  | (store) j n where "j < length (setters s)" "setters s ! j = SHeld n"
      "s' = s\<lparr>sbSender := n, mu := WNone, setters := (setters s)[j := SReturned]\<rparr>" "a = SetStore j"
proof (cases a)
  case StartOp
  with assms show thesis by (intro start) (simp_all add: lstep_def)
next
  case (OpNewBatch i)
  with assms show thesis by (intro caller [of i CWantBatch]) (auto simp: lstep_def caller_at_def split: if_splits)
next
  case (BatchLock i)
  with assms show thesis by (intro batch [of i]) (auto simp: lstep_def batch_lock_def caller_at_def split: if_splits)
next
  case (BatchEnds i ok)
  with assms show thesis
    by (intro caller [of i "if ok then CReady else CReturned"]) (auto simp: lstep_def batch_ends_def split: if_splits)
next
  case (OpSend i)
  with assms show thesis by (intro send [of i]) (auto simp: lstep_def op_send_def caller_at_def split: if_splits)
next
  case (GoLock g)
  with assms show thesis by (intro lock [of g]) (auto simp: lstep_def go_lock_def split: if_splits)
next
  case (GoCallEnds g r)
  with assms obtain n where "g < length (gos s)" "gos s ! g = GCall n" "s' = set_go g (GSend r) s"
    by (cases "gos s ! g") (auto simp: lstep_def go_call_ends_def split: if_splits)
  then show thesis by (rule ends)
next
  case (Rendezvous i again)
  with assms obtain g r where "i < length (callers s)" "g < length (gos s)" "callers s ! i = CSelect g" "gos s ! g = GSend r"
    "s' = set_caller i (if r = None \<and> again then CReady else CReturned) (set_go g GExit s)"
    by (auto simp: lstep_def rendezvous_def split: if_splits caller.splits sgo.splits)
  then show thesis by (rule meet) auto
next
  case (CtxFires i)
  with assms show thesis by (intro caller [of i CReturned]) (auto simp: lstep_def ctx_fires_def split: if_splits caller.splits)
next
  case (OpReturns i)
  with assms show thesis by (intro caller [of i CReturned]) (auto simp: lstep_def caller_at_def split: if_splits)
next
  case (StartSet n)
  with assms show thesis by (intro request [of n]) (simp add: lstep_def)
next
  case (SetAnnounce j)
  with assms obtain n where "j < length (setters s)" "setters s ! j = SWant n" "mu s = WNone"
    "s' = s\<lparr>mu := WPending, setters := (setters s)[j := SPending n]\<rparr>"
    by (auto simp: lstep_def set_announce_def split: if_splits setter.splits)
  then show thesis by (rule announce)
next
  case (SetAcquire j)
  with assms obtain n where "j < length (setters s)" "setters s ! j = SPending n" "no_readers s"
    "s' = s\<lparr>mu := WHeld, setters := (setters s)[j := SHeld n]\<rparr>"
    by (auto simp: lstep_def set_acquire_def split: if_splits setter.splits)
  then show thesis by (rule acquire)
next
  case (SetStore j)
  with assms obtain n where "j < length (setters s)" "setters s ! j = SHeld n"
    "s' = s\<lparr>sbSender := n, mu := WNone, setters := (setters s)[j := SReturned]\<rparr>"
    by (auto simp: lstep_def set_store_def split: if_splits setter.splits)
  then show thesis using SetStore by (rule store)
qed

section \<open>The lock\<close>

fun is_pending :: "setter \<Rightarrow> bool" where
  "is_pending (SPending n) = True"
| "is_pending _ = False"

fun is_held :: "setter \<Rightarrow> bool" where
  "is_held (SHeld n) = True"
| "is_held _ = False"

definition setter_count :: "(setter \<Rightarrow> bool) \<Rightarrow> lstate \<Rightarrow> nat" where
  "setter_count p s = length (filter p (setters s))"

definition calls_current :: "lstate \<Rightarrow> bool" where
  "calls_current s \<longleftrightarrow> (\<forall>n. CNewBatch n \<in> set (callers s) \<longrightarrow> n = sbSender s) \<and> (\<forall>n. GCall n \<in> set (gos s) \<longrightarrow> n = sbSender s)"

definition lock_inv :: "lstate \<Rightarrow> bool" where
  "lock_inv s \<longleftrightarrow> calls_current s \<and> (mu s = WHeld \<longrightarrow> no_readers s)
     \<and> setter_count is_pending s = (if mu s = WPending then 1 else 0)
     \<and> setter_count is_held s = (if mu s = WHeld then 1 else 0)"

lemma no_readers_calls:
  "no_readers s \<Longrightarrow> CNewBatch n \<notin> set (callers s)" "no_readers s \<Longrightarrow> GCall n \<notin> set (gos s)"
  by (auto simp: no_readers_def list_all_iff)

lemma no_readers_update:
  assumes "no_readers s"
  shows "\<not> reading_caller c \<Longrightarrow> no_readers (set_caller i c s)" and "\<not> reading_go x \<Longrightarrow> no_readers (set_go g x s)"
  using assms set_update_subset_insert [of "callers s" i c] set_update_subset_insert [of "gos s" g x]
  by (auto simp: no_readers_def set_caller_def set_go_def list_all_iff)

lemma calls_current_caller:
  assumes "calls_current s" and "\<And>n. c = CNewBatch n \<Longrightarrow> n = sbSender s"
  shows "calls_current (set_caller i c s)"
  using assms set_update_subset_insert [of "callers s" i c]
  by (auto simp: calls_current_def set_caller_def)

lemma calls_current_go:
  assumes "calls_current s" and "\<And>n. x = GCall n \<Longrightarrow> n = sbSender s"
  shows "calls_current (set_go g x s)"
  using assms set_update_subset_insert [of "gos s" g x]
  by (auto simp: calls_current_def set_go_def)

lemma lock_frame [simp]:
  "calls_current (s\<lparr>used := u\<rparr>) = calls_current s" "no_readers (s\<lparr>used := u\<rparr>) = no_readers s"
  "calls_current (s\<lparr>gos := gos s @ [GWant]\<rparr>) = calls_current s" "no_readers (s\<lparr>gos := gos s @ [GWant]\<rparr>) = no_readers s"
  "calls_current (s\<lparr>callers := callers s @ [CReady]\<rparr>) = calls_current s"
  "no_readers (s\<lparr>callers := callers s @ [CReady]\<rparr>) = no_readers s"
  "calls_current (s\<lparr>setters := ss\<rparr>) = calls_current s" "no_readers (s\<lparr>setters := ss\<rparr>) = no_readers s"
  "calls_current (s\<lparr>mu := k\<rparr>) = calls_current s" "no_readers (s\<lparr>mu := k\<rparr>) = no_readers s"
  "no_readers (s\<lparr>sbSender := n\<rparr>) = no_readers s"
  by (auto simp: calls_current_def no_readers_def)

lemma set_caller_frame [simp]:
  "mu (set_caller i c s) = mu s" "setters (set_caller i c s) = setters s" "sbSender (set_caller i c s) = sbSender s"
  "gos (set_caller i c s) = gos s" "callers (set_caller i c s) = (callers s)[i := c]"
  "mu (set_go g x s) = mu s" "setters (set_go g x s) = setters s" "sbSender (set_go g x s) = sbSender s"
  "gos (set_go g x s) = (gos s)[g := x]" "callers (set_go g x s) = callers s"
  by (simp_all add: set_caller_def set_go_def)

lemma setter_pos: "j < length (setters s) \<Longrightarrow> p (setters s ! j) \<Longrightarrow> 0 < setter_count p s"
  unfolding setter_count_def by (drule (1) filter_nth_pos) linarith

lemma op_send_frame:
  "calls_current ((set_caller i (CSelect k) s)\<lparr>gos := gos s @ [GWant]\<rparr>) = calls_current (set_caller i (CSelect k) s)"
  "no_readers ((set_caller i (CSelect k) s)\<lparr>gos := gos s @ [GWant]\<rparr>) = no_readers (set_caller i (CSelect k) s)"
  by (auto simp: calls_current_def no_readers_def set_caller_def)

lemma lock_inv_step:
  assumes "lock_inv s" and "lstep a s = Some s'"
  shows "lock_inv s'"
  using assms(2)
proof (cases rule: lstep_cases)
  case (caller i c)
  with assms(1) show ?thesis
    by (auto simp: lock_inv_def setter_count_def intro: calls_current_caller no_readers_update)
next
  case (batch i)
  with assms(1) show ?thesis by (auto simp: lock_inv_def setter_count_def intro: calls_current_caller)
next
  case (send i)
  with assms(1) show ?thesis
    by (auto simp: lock_inv_def setter_count_def op_send_frame intro: calls_current_caller no_readers_update)
next
  case (lock g)
  with assms(1) show ?thesis by (auto simp: lock_inv_def setter_count_def intro: calls_current_go)
next
  case (ends g r n)
  with assms(1) show ?thesis
    by (auto simp: lock_inv_def setter_count_def intro: calls_current_go no_readers_update)
next
  case (meet i c g r)
  with assms(1) show ?thesis
    by (auto simp: lock_inv_def setter_count_def intro!: calls_current_caller calls_current_go no_readers_update)
next
  case (announce j n)
  with assms(1) show ?thesis by (auto simp: lock_inv_def setter_count_def filter_update_count)
next
  case (acquire j n)
  with assms(1) setter_pos [of j s is_pending] show ?thesis
    by (auto simp: lock_inv_def setter_count_def filter_update_count split: if_splits)
next
  case (store j n)
  with assms(1) setter_pos [of j s is_held] have "mu s = WHeld" "no_readers s" by (auto simp: lock_inv_def split: if_splits)
  with assms(1) store no_readers_calls [of s] show ?thesis
    by (auto simp: lock_inv_def setter_count_def filter_update_count calls_current_def)
qed (use assms(1) in \<open>auto simp: lock_inv_def setter_count_def\<close>)

interpretation rwlock: step_invariant lstep "init_lstate s0" lock_inv for s0
  by unfold_locales
    (simp add: lock_inv_def init_lstate_def calls_current_def setter_count_def, erule lock_inv_step)

section \<open>Goroutines and their callers\<close>

definition select_inv :: "lstate \<Rightarrow> bool" where
  "select_inv s \<longleftrightarrow>
     (\<forall>i g. i < length (callers s) \<and> callers s ! i = CSelect g \<longrightarrow> g < length (gos s) \<and> gos s ! g \<noteq> GExit)
     \<and> (\<forall>i j g. i < length (callers s) \<and> j < length (callers s) \<and> callers s ! i = CSelect g \<and> callers s ! j = CSelect g \<longrightarrow> i = j)"

lemma select_inv_step:
  assumes "select_inv s" and "lstep a s = Some s'"
  shows "select_inv s'"
  using assms(2)
proof (cases rule: lstep_cases)
  case start
  with assms(1) show ?thesis by (auto simp: select_inv_def nth_append less_Suc_eq)
next
  case (caller i c)
  with assms(1) show ?thesis by (auto simp: select_inv_def nth_list_update split: if_splits)
next
  case (batch i)
  with assms(1) show ?thesis by (auto simp: select_inv_def nth_list_update split: if_splits)
next
  case (send i)
  with assms(1) show ?thesis
    by (fastforce simp: select_inv_def nth_list_update nth_append split: if_splits)
next
  case (lock g)
  with assms(1) show ?thesis by (auto simp: select_inv_def nth_list_update split: if_splits)
next
  case (ends g r n)
  with assms(1) show ?thesis by (auto simp: select_inv_def nth_list_update split: if_splits)
next
  case (meet i c g r)
  with assms(1) show ?thesis by (auto simp: select_inv_def nth_list_update split: if_splits)
qed (use assms(1) in \<open>auto simp: select_inv_def\<close>)

interpretation waiting: step_invariant lstep "init_lstate s0" select_inv for s0
  by unfold_locales (simp add: select_inv_def init_lstate_def, erule select_inv_step)

text \<open>A goroutine nobody waits for any more.\<close>

definition orphan :: "nat \<Rightarrow> lstate \<Rightarrow> bool" where
  "orphan g s \<longleftrightarrow> g < length (gos s) \<and> gos s ! g \<noteq> GExit \<and> CSelect g \<notin> set (callers s)"

lemma orphan_step:
  assumes "orphan g s" and "lstep a s = Some s'"
  shows "orphan g s'"
  using assms(2)
proof (cases rule: lstep_cases)
  case (caller i c)
  with assms(1) set_update_subset_insert [of "callers s" i c] show ?thesis by (auto simp: orphan_def)
next
  case (batch i)
  with assms(1) set_update_subset_insert [of "callers s" i "CNewBatch (sbSender s)"] show ?thesis by (auto simp: orphan_def)
next
  case (send i)
  with assms(1) set_update_subset_insert [of "callers s" i "CSelect (length (gos s))"] show ?thesis
    by (auto simp: orphan_def nth_append)
next
  case (lock k)
  with assms(1) show ?thesis by (auto simp: orphan_def nth_list_update)
next
  case (ends k r n)
  with assms(1) show ?thesis by (auto simp: orphan_def nth_list_update)
next
  case (meet i c k r)
  have "k \<noteq> g" using meet assms(1) by (metis nth_mem orphan_def)
  with meet assms(1) set_update_subset_insert [of "callers s" i c] show ?thesis
    by (auto simp: orphan_def nth_list_update)
qed (use assms(1) in \<open>auto simp: orphan_def\<close>)

lemma orphan_reachable: "reachable lstep s t \<Longrightarrow> orphan g s \<Longrightarrow> orphan g t"
  by (induction rule: reachable.induct) (auto dest: orphan_step)

section \<open>Which sender a call uses\<close>

text \<open>Between two stores the sender stays, and every call that begins is logged with it.\<close>

lemma owner_of_sender: "list_all (\<lambda>im. snd im = sbSender s) (owner_of g s)"
  by (auto simp: owner_of_def List.map_filter_def list_all_iff split: if_splits)

lemma lstep_sender:
  assumes "lstep a s = Some s'" and "\<And>k. a \<noteq> SetStore k"
  shows "sbSender s' = sbSender s \<and> (\<exists>xs. used s' = used s @ xs \<and> list_all (\<lambda>im. snd im = sbSender s) xs)"
  using assms(1) by (cases rule: lstep_cases)
    (use assms(2) owner_of_sender [of s] in \<open>auto simp: set_caller_def set_go_def\<close>)

lemma run_sender:
  assumes "run lstep as s = Some t" and "list_all (\<lambda>a. \<forall>k. a \<noteq> SetStore k) as"
  shows "sbSender t = sbSender s \<and> (\<exists>xs. used t = used s @ xs \<and> list_all (\<lambda>im. snd im = sbSender s) xs)"
  using assms
proof (induction as arbitrary: s)
  case (Cons a as)
  then obtain u where u: "lstep a s = Some u" "run lstep as u = Some t" by (auto split: option.splits)
  with lstep_sender [OF u(1)] Cons.IH [OF u(2)] Cons.prems(2) show ?case by fastforce
qed simp

section \<open>Properties\<close>

text \<open>A failover while one send is under way and an operation with two batches is in between.\<close>

definition failover_run :: "laction list" where
  "failover_run = [StartOp, OpNewBatch 0, BatchLock 0, BatchEnds 0 True, OpSend 0, GoLock 0, GoCallEnds 0 None, Rendezvous 0 True,
     StartSet 1, SetAnnounce 0, SetAcquire 0, SetStore 0, OpNewBatch 0, BatchLock 0]"

lemmas lstep_eval = lstep_def batch_lock_def batch_ends_def op_send_def go_lock_def go_call_ends_def rendezvous_def
  ctx_fires_def set_announce_def set_acquire_def set_store_def caller_at_def set_caller_def set_go_def no_readers_def
  init_lstate_def owner_of_def List.map_filter_def

text \<open>
  C8. The underlying sender is never replaced under a running call: in every reachable state all calls in
  progress run on the current sender, a setter inside the lock has no call beside it, at most one
  setter is inside, and what \<open>AzSender\<close> returns is the sender those calls use.
\<close>

theorem calls_run_on_current_sender:
  assumes "reachable lstep (init_lstate s0) s"
  shows "(\<forall>i n. i < length (callers s) \<and> callers s ! i = CNewBatch n \<longrightarrow> n = sbSender s)
    \<and> (\<forall>g n. g < length (gos s) \<and> gos s ! g = GCall n \<longrightarrow> n = sbSender s)
    \<and> (mu s = WHeld \<longrightarrow> no_readers s)
    \<and> setter_count is_held s \<le> 1
    \<and> (AzSender s = Some n \<longrightarrow> n = sbSender s \<and> setter_count is_held s = 0)"
  using rwlock.inv_reachable [OF assms]
  by (auto simp: lock_inv_def calls_current_def AzSender_def dest: nth_mem split: if_splits)

theorem calls_run_on_current_sender_witness:
  "\<exists>s. run lstep (failover_run @ [StartOp, OpSend 1, GoLock 1]) (init_lstate 0) = Some s
     \<and> callers s ! 0 = CNewBatch 1 \<and> gos s ! 1 = GCall 1 \<and> sbSender s = 1 \<and> setter_count is_held s \<le> 1"
proof -
  obtain s where s: "run lstep (failover_run @ [StartOp, OpSend 1, GoLock 1]) (init_lstate 0) = Some s"
    "callers s ! 0 = CNewBatch 1" "gos s ! 1 = GCall 1" "length (gos s) = 2"
    by (simp add: failover_run_def lstep_eval)
  with calls_run_on_current_sender [OF run_reachable, OF s(1)] show ?thesis
    by (metis lessI numeral_2_eq_2 One_nat_def)
qed

text \<open>
  C23. Replacing the sender cannot get stuck in the lock: as long as some setter has not returned, a setter
  can take its next step or a call in progress can end; once no call is in progress, it is a setter that can go on.
\<close>

theorem set_sender_makes_progress:
  assumes "reachable lstep (init_lstate s0) s" and "j < length (setters s)" and "setters s ! j \<noteq> SReturned"
  shows "(\<exists>k a s'. lstep a s = Some s' \<and> a \<in> {SetAnnounce k, SetAcquire k, SetStore k})
    \<or> (\<exists>g n. g < length (gos s) \<and> gos s ! g = GCall n \<and> lstep (GoCallEnds g None) s \<noteq> None)
    \<or> (\<exists>i n. i < length (callers s) \<and> callers s ! i = CNewBatch n \<and> lstep (BatchEnds i True) s \<noteq> None)"
proof -
  have inv: "lock_inv s" using rwlock.inv_reachable [OF assms(1)] .
  have found: "\<exists>k<length (setters s). p (setters s ! k)" if "setter_count p s = 1" for p
    using that by (metis One_nat_def filter_False in_set_conv_nth length_0_conv setter_count_def zero_neq_one)
  consider (held) "mu s = WHeld" | (pending) "mu s = WPending" | (free) "mu s = WNone" by (cases "mu s")
  then show ?thesis
  proof cases
    case held
    with inv found [of is_held] obtain k n where "k < length (setters s)" "setters s ! k = SHeld n"
      by (auto simp: lock_inv_def elim: is_held.elims)
    then have "lstep (SetStore k) s \<noteq> None" by (simp add: lstep_def set_store_def)
    then show ?thesis by blast
  next
    case pending
    with inv found [of is_pending] obtain k n where k: "k < length (setters s)" "setters s ! k = SPending n"
      by (auto simp: lock_inv_def elim: is_pending.elims)
    show ?thesis
    proof (cases "no_readers s")
      case True
      with k have "lstep (SetAcquire k) s \<noteq> None" by (simp add: lstep_def set_acquire_def)
      then show ?thesis by blast
    next
      case False
      then consider i n where "i < length (callers s)" "callers s ! i = CNewBatch n"
        | g n where "g < length (gos s)" "gos s ! g = GCall n"
        by (auto simp: no_readers_def list_all_length elim: reading_caller.elims reading_go.elims)
      then show ?thesis
        by cases (auto simp: lstep_def batch_ends_def go_call_ends_def)
    qed
  next
    case free
    show ?thesis
    proof (cases "setters s ! j")
      case (SWant n)
      with free assms(2) have "lstep (SetAnnounce j) s \<noteq> None" by (simp add: lstep_def set_announce_def)
      then show ?thesis by blast
    next
      case (SPending n)
      with free inv assms(2) setter_pos [of j s is_pending] show ?thesis by (auto simp: lock_inv_def)
    next
      case (SHeld n)
      with free inv assms(2) setter_pos [of j s is_held] show ?thesis by (auto simp: lock_inv_def)
    qed (use assms(3) in simp)
  qed
qed

theorem set_sender_makes_progress_witness:
  "\<exists>s. run lstep [StartOp, OpSend 0, GoLock 0, StartSet 1, SetAnnounce 0] (init_lstate 0) = Some s
     \<and> setters s ! 0 = SPending 1
     \<and> ((\<exists>k a s'. lstep a s = Some s' \<and> a \<in> {SetAnnounce k, SetAcquire k, SetStore k})
       \<or> (\<exists>g n. g < length (gos s) \<and> gos s ! g = GCall n \<and> lstep (GoCallEnds g None) s \<noteq> None)
       \<or> (\<exists>i n. i < length (callers s) \<and> callers s ! i = CNewBatch n \<and> lstep (BatchEnds i True) s \<noteq> None))"
proof -
  obtain s where s: "run lstep [StartOp, OpSend 0, GoLock 0, StartSet 1, SetAnnounce 0] (init_lstate 0) = Some s"
    "length (setters s) = 1" "setters s ! 0 = SPending 1"
    by (simp add: lstep_eval)
  with set_sender_makes_progress [OF run_reachable, OF s(1), of 0] show ?thesis by auto
qed

text \<open>
  C24. A send whose caller gives up because its context is done leaves its goroutine behind for
  good: the result channel has no buffer, the only receiver has returned, and in every later state the goroutine has
  not ended.
\<close>

theorem abandoned_send_never_ends:
  assumes "reachable lstep (init_lstate s0) s" and "callers s ! i = CSelect g" and "lstep (CtxFires i) s = Some s'"
    and "reachable lstep s' t"
  shows "g < length (gos t) \<and> gos t ! g \<noteq> GExit"
proof -
  have inv: "select_inv s" using waiting.inv_reachable [OF assms(1)] .
  from assms(2,3) have i: "i < length (callers s)" and s': "s' = set_caller i CReturned s"
    by (auto simp: lstep_def ctx_fires_def split: if_splits)
  have "CSelect g \<notin> set ((callers s)[i := CReturned])"
    using inv i assms(2) by (auto simp: select_inv_def in_set_conv_nth nth_list_update)
  with inv i assms(2) s' have "orphan g s'" by (auto simp: orphan_def select_inv_def)
  with orphan_reachable [OF assms(4)] show ?thesis by (simp add: orphan_def)
qed

theorem abandoned_send_never_ends_witness:
  "\<exists>s s' t. run lstep [StartOp, OpSend 0, GoLock 0] (init_lstate 0) = Some s \<and> lstep (CtxFires 0) s = Some s'
     \<and> run lstep [GoCallEnds 0 (Some DeadlineExceeded)] s' = Some t
     \<and> callers t = [CReturned] \<and> gos t ! 0 \<noteq> GExit"
proof -
  obtain s s' t where s: "run lstep [StartOp, OpSend 0, GoLock 0] (init_lstate 0) = Some s" "callers s ! 0 = CSelect 0"
    and s': "lstep (CtxFires 0) s = Some s'" and t: "run lstep [GoCallEnds 0 (Some DeadlineExceeded)] s' = Some t"
    and c: "callers t = [CReturned]"
    by (simp add: lstep_eval)
  from abandoned_send_never_ends [OF run_reachable [OF s(1)] s(2) s' run_reachable [OF t]] s s' t c show ?thesis by blast
qed

text \<open>
  C25. A replaced sender is used by everyone at once, ongoing operations included. When \<open>SetAzSender\<close> stores the new sender, no call is in
  progress on the old one; and until the next store every call that begins, of a new operation or of one that has already sent on the old sender,
  is made on the new one, and so is every call in progress. (The log \<open>used\<close> holds, for each call begun, the operation and the sender.)
\<close>

theorem set_sender_reaches_ongoing_operations:
  assumes "reachable lstep (init_lstate s0) s" and "setters s ! j = SHeld n" and "lstep (SetStore j) s = Some s'"
    and "run lstep as s' = Some t" and "list_all (\<lambda>a. \<forall>k. a \<noteq> SetStore k) as"
  shows "no_readers s' \<and> sbSender t = n
    \<and> (\<exists>xs. used t = used s @ xs \<and> list_all (\<lambda>im. snd im = n) xs)
    \<and> (\<forall>i m. i < length (callers t) \<and> callers t ! i = CNewBatch m \<longrightarrow> m = n)
    \<and> (\<forall>g m. g < length (gos t) \<and> gos t ! g = GCall m \<longrightarrow> m = n)"
proof -
  from assms(2,3) have j: "j < length (setters s)"
    and s': "s' = s\<lparr>sbSender := n, mu := WNone, setters := (setters s)[j := SReturned]\<rparr>"
    by (auto simp: lstep_def set_store_def split: if_splits)
  from setter_pos [OF j, of is_held] assms(2) rwlock.inv_reachable [OF assms(1)] have "no_readers s"
    by (auto simp: lock_inv_def split: if_splits)
  then have "no_readers s'" unfolding s' by (simp add: no_readers_def)
  moreover have "lock_inv t"
    by (rule rwlock.inv_reachable, rule reachable_run_from [OF assms(4) reach_step [OF assms(1,3)]])
  moreover from run_sender [OF assms(4,5)] have "sbSender t = n" "\<exists>xs. used t = used s @ xs \<and> list_all (\<lambda>im. snd im = n) xs"
    unfolding s' by simp_all
  ultimately show ?thesis by (auto simp: lock_inv_def calls_current_def dest: nth_mem)
qed

text \<open>An operation with two batches: the first goes out on sender 0, then the sender is replaced.\<close>

theorem set_sender_reaches_ongoing_operations_witness:
  "\<exists>s s' t. run lstep [StartOp, OpNewBatch 0, BatchLock 0, BatchEnds 0 True, OpSend 0, GoLock 0, GoCallEnds 0 None, Rendezvous 0 True,
       StartSet 1, SetAnnounce 0, SetAcquire 0] (init_lstate 0) = Some s
     \<and> lstep (SetStore 0) s = Some s' \<and> run lstep [OpNewBatch 0, BatchLock 0] s' = Some t
     \<and> used s = [(0, 0), (0, 0)] \<and> used t = [(0, 0), (0, 0), (0, 1)] \<and> sbSender t = 1"
proof -
  obtain s s' t where s: "run lstep [StartOp, OpNewBatch 0, BatchLock 0, BatchEnds 0 True, OpSend 0, GoLock 0, GoCallEnds 0 None,
       Rendezvous 0 True, StartSet 1, SetAnnounce 0, SetAcquire 0] (init_lstate 0) = Some s" "setters s ! 0 = SHeld 1"
      "used s = [(0, 0), (0, 0)]"
    and s': "lstep (SetStore 0) s = Some s'" and t: "run lstep [OpNewBatch 0, BatchLock 0] s' = Some t"
      "used t = [(0, 0), (0, 0), (0, 1)]"
    by (simp add: lstep_eval)
  from set_sender_reaches_ongoing_operations [OF run_reachable [OF s(1)] s(2) s' t(1)] s s' t show ?thesis by auto
qed

end
