(* ===== verification/Health.thy ===== *)
theory Health
  imports Metrics Handlers
begin

text \<open>
  \<^verbatim>\<open>v2/health.go\<close>: the health checker's options, the periodic loop (one goroutine per namespace, independent of the others) and the
  checks of senders and receivers. The service bus client is a parameter: what creating, probing and closing a link answers, and
  how long it takes.
\<close>

section \<open>Options\<close>

definition defaultHealthCheckInterval :: duration where
  "defaultHealthCheckInterval = seconds 60"

record HealthCheckerOptions =
  HealthCheckInterval :: duration
  HealthCheckTimeout :: duration

definition NewHealthChecker :: "HealthCheckerOptions option \<Rightarrow> HealthCheckerOptions" where
  "NewHealthChecker options =
     (let options = (case options of None \<Rightarrow> \<lparr>HealthCheckInterval = 0, HealthCheckTimeout = 0\<rparr> | Some o' \<Rightarrow> o');
          options = (if HealthCheckInterval options \<le> 0 then options\<lparr>HealthCheckInterval := defaultHealthCheckInterval\<rparr> else options)
      in if HealthCheckTimeout options \<le> 0 \<or> HealthCheckTimeout options > HealthCheckInterval options
         then options\<lparr>HealthCheckTimeout := HealthCheckInterval options\<rparr> else options)"

section \<open>The world of a health check\<close>

datatype health_event =
    HProbe Context nat "err option"
  | HClose Context nat "err option"
  | HLog string "log_arg list"
  | HSenderMetric sender_metric
  | HReceiverMetric recorder_call
  | HCheck Context string instant

record hworld =
  hnow :: instant
  hevents :: "health_event list"

definition hadd :: "health_event list \<Rightarrow> hworld \<Rightarrow> hworld" where
  "hadd es w = w\<lparr>hevents := hevents w @ es\<rparr>"

text \<open>A link (sender or receiver) is identified by a number; creating one gives a link or nil, and an error or nil.\<close>

record sb_client =
  cl_NewSender :: "string \<Rightarrow> nat option \<times> err option"
  cl_NewReceiverForQueue :: "string \<Rightarrow> nat option \<times> err option"
  cl_NewReceiverForSubscription :: "string \<Rightarrow> string \<Rightarrow> nat option \<times> err option"
  cl_Probe :: "nat \<Rightarrow> Context \<Rightarrow> hworld \<Rightarrow> err option \<times> nat"
  cl_Close :: "nat \<Rightarrow> Context \<Rightarrow> hworld \<Rightarrow> err option \<times> nat"

section \<open>The checks\<close>

text \<open>
  Both checks have the same shape: create the link, probe it (\<open>NewMessageBatch\<close> or \<open>PeekMessages\<close>), and in a deferred function close it
  and record the result. The result of the check is the value of \<open>err\<close> at the \<open>return\<close>; the deferred function
  changes the variable, which is not a named result, so only the metric sees the error of closing.
\<close>

definition close_link :: "sb_client \<Rightarrow> nat option \<Rightarrow> Context \<Rightarrow> err option \<Rightarrow> hworld \<Rightarrow> err option \<times> hworld" where
  "close_link client link ctx e w = (case link of
     None \<Rightarrow> (e, w)
   | Some l \<Rightarrow> (case cl_Close client l ctx w of (closeErr, d) \<Rightarrow>
       let w = hadd [HClose ctx l closeErr] (w\<lparr>hnow := hnow w + int d\<rparr>) in
       case closeErr of None \<Rightarrow> (e, w) | Some ce \<Rightarrow> (Some ce, hadd [HLog ''%s'' [AErr ce]] w)))"

definition health_check ::
  "sb_client \<Rightarrow> nat option \<times> err option \<Rightarrow> (err option \<Rightarrow> health_event) \<Rightarrow> Context \<Rightarrow> hworld \<Rightarrow> err option outcome \<times> hworld" where
  "health_check client created metric ctx w = (case created of (link, e) \<Rightarrow>
     let (res, e, w) =
       (if e \<noteq> None then (Returned e, e, w)
        else case link of
          None \<Rightarrow> (Panicked nil_pointer_panic, e, w)
        | Some l \<Rightarrow> (case cl_Probe client l ctx w of (pe, d) \<Rightarrow>
            (Returned pe, pe, hadd [HProbe ctx l pe] (w\<lparr>hnow := hnow w + int d\<rparr>))));
         (e, w) = close_link client link ctx e w
     in (res, hadd [metric e] w))"

definition sender_incHealthCheckMetric :: "string \<Rightarrow> string \<Rightarrow> err option \<Rightarrow> health_event" where
  "sender_incHealthCheckMetric entity ns healthCheckErr = HSenderMetric
     (if healthCheckErr \<noteq> None then IncSenderHealthCheckFailureCount ns entity else IncSenderHealthCheckSuccessCount ns entity)"

definition SenderHealthChecker_HealthCheck ::
  "string \<Rightarrow> Context \<Rightarrow> string \<Rightarrow> sb_client \<Rightarrow> hworld \<Rightarrow> err option outcome \<times> hworld" where
  "SenderHealthChecker_HealthCheck entity ctx ns client w =
     health_check client (cl_NewSender client entity) (sender_incHealthCheckMetric entity ns) ctx w"

definition createReceiver :: "string \<Rightarrow> string \<Rightarrow> sb_client \<Rightarrow> nat option \<times> err option" where
  "createReceiver entity subscription client =
     (if subscription = [] then cl_NewReceiverForQueue client entity else cl_NewReceiverForSubscription client entity subscription)"

definition receiver_incHealthCheckMetric :: "string \<Rightarrow> string \<Rightarrow> string \<Rightarrow> err option \<Rightarrow> health_event" where
  "receiver_incHealthCheckMetric entity subscription ns healthCheckErr = HReceiverMetric
     (if healthCheckErr \<noteq> None then IncHealthCheckFailureCount ns entity subscription else IncHealthCheckSuccessCount ns entity subscription)"

definition ReceiverHealthChecker_HealthCheck ::
  "string \<Rightarrow> string \<Rightarrow> Context \<Rightarrow> string \<Rightarrow> sb_client \<Rightarrow> hworld \<Rightarrow> err option outcome \<times> hworld" where
  "ReceiverHealthChecker_HealthCheck entity subscription ctx ns client w =
     health_check client (createReceiver entity subscription client) (receiver_incHealthCheckMetric entity subscription ns) ctx w"

section \<open>The periodic loop\<close>

text \<open>\<open>HealthCheckable\<close>: any implementation, given the namespace and its client.\<close>

type_synonym checkable = "Context \<Rightarrow> string \<Rightarrow> sb_client \<Rightarrow> hworld \<Rightarrow> err option outcome \<times> hworld"

datatype loop_end = Stopped | Crashed panic_value

definition run_check :: "HealthCheckerOptions \<Rightarrow> checkable \<Rightarrow> string \<Rightarrow> sb_client \<Rightarrow> Context \<Rightarrow> hworld \<Rightarrow> unit outcome \<times> hworld" where
  "run_check h hc ns client ctx w =
     (let sbCtx = WithTimeout ctx (hnow w) (HealthCheckTimeout h);
          w = hadd [HCheck sbCtx ns (hnow w)] w
      in case hc sbCtx ns client w of
           (Panicked p, w) \<Rightarrow> (Panicked p, w)
         | (Returned None, w) \<Rightarrow> (Returned (), w)
         | (Returned (Some e), w) \<Rightarrow>
             (Returned (), hadd [HLog ''Health check failed for namespace %s: %s'' [AStr ns, AErr e]] w))"

text \<open>
  One round of the loop: the timer fires at \<open>nextCheck\<close> (at once when that is past), the context is done from \<open>td\<close> on; when both
  are ready at the same instant \<open>tie\<close> says which branch Go takes. On fuel; \<open>None\<close> means the fuel ran out.
\<close>

fun health_loop ::
  "nat \<Rightarrow> HealthCheckerOptions \<Rightarrow> (hworld \<Rightarrow> bool) \<Rightarrow> checkable \<Rightarrow> string \<Rightarrow> sb_client \<Rightarrow> Context \<Rightarrow> instant \<Rightarrow> hworld
   \<Rightarrow> (loop_end \<times> hworld) option" where
  "health_loop 0 h tie hc ns client ctx nextCheck w = None"
| "health_loop (Suc fuel) h tie hc ns client ctx nextCheck w =
     (let t_fire = max (hnow w) nextCheck;
          stop_at = (case ctx_done_at ctx of
              None \<Rightarrow> None
            | Some td \<Rightarrow> (let t_done = max (hnow w) td in
                if t_done < t_fire \<or> t_done = t_fire \<and> tie w then Some t_done else None))
      in case stop_at of
           Some t \<Rightarrow> Some (Stopped, w\<lparr>hnow := t\<rparr>)
         | None \<Rightarrow> (case run_check h hc ns client ctx (w\<lparr>hnow := t_fire\<rparr>) of
               (Panicked p, w') \<Rightarrow> Some (Crashed p, w')
             | (Returned u, w') \<Rightarrow> health_loop fuel h tie hc ns client ctx (nextCheck + HealthCheckInterval h) w'))"

definition periodicHealthCheck ::
  "nat \<Rightarrow> HealthCheckerOptions \<Rightarrow> (hworld \<Rightarrow> bool) \<Rightarrow> checkable \<Rightarrow> string \<Rightarrow> sb_client \<Rightarrow> Context \<Rightarrow> hworld
   \<Rightarrow> (loop_end \<times> hworld) option" where
  "periodicHealthCheck fuel h tie hc ns client ctx w = health_loop fuel h tie hc ns client ctx (hnow w) w"

text \<open>\<open>StartPeriodicHealthCheck\<close> starts one such goroutine per client; each has its own trace.\<close>

definition StartPeriodicHealthCheck ::
  "nat \<Rightarrow> HealthCheckerOptions \<Rightarrow> (hworld \<Rightarrow> bool) \<Rightarrow> checkable \<Rightarrow> (string \<times> sb_client) list \<Rightarrow> Context \<Rightarrow> hworld
   \<Rightarrow> (string \<times> (loop_end \<times> hworld) option) list" where
  "StartPeriodicHealthCheck fuel h tie hc clients ctx w =
     map (\<lambda>(ns, client). (ns, periodicHealthCheck fuel h tie hc ns client ctx w)) clients"

section \<open>Lemmas: the loop\<close>

text \<open>The starts of the checks of a namespace, with the contexts they ran under.\<close>

fun check_of :: "health_event \<Rightarrow> (Context \<times> instant) option" where
  "check_of (HCheck c ns t) = Some (c, t)"
| "check_of _ = None"

definition checks :: "hworld \<Rightarrow> (Context \<times> instant) list" where
  "checks w = List.map_filter check_of (hevents w)"

text \<open>
  What is asked of a check: it returns, records no check itself, and ends at most \<open>slack\<close> nanoseconds after the context it was given is
  done (the timeout on that context is there for this). It may well last until then.
\<close>

definition ends_with_context :: "nat \<Rightarrow> checkable \<Rightarrow> string \<Rightarrow> sb_client \<Rightarrow> bool" where
  "ends_with_context slack hc ns client \<longleftrightarrow> (\<forall>ctx w. \<exists>r w'. hc ctx ns client w = (Returned r, w') \<and> checks w' = checks w
     \<and> hnow w \<le> hnow w' \<and> (\<forall>d. ctx_done_at ctx = Some d \<longrightarrow> hnow w' \<le> max (hnow w) d + int slack))"

lemma checks_hadd [simp]:
  "checks (hadd es w) = checks w @ List.map_filter check_of es" "hnow (hadd es w) = hnow w"
  "checks (w\<lparr>hnow := t\<rparr>) = checks w"
  by (simp_all add: checks_def hadd_def List.map_filter_def)

lemma run_check_ends:
  assumes "ends_with_context slack hc ns client" and "0 \<le> HealthCheckTimeout h"
  obtains w' where "run_check h hc ns client ctx w = (Returned (), w')"
    "checks w' = checks w @ [(WithTimeout ctx (hnow w) (HealthCheckTimeout h), hnow w)]"
    "hnow w \<le> hnow w'" "hnow w' \<le> hnow w + HealthCheckTimeout h + int slack"
    "\<And>td. ctx_done_at ctx = Some td \<Longrightarrow> hnow w' \<le> max (hnow w) td + int slack"
proof -
  let ?ctx = "WithTimeout ctx (hnow w) (HealthCheckTimeout h)"
  let ?w = "hadd [HCheck ?ctx ns (hnow w)] w"
  obtain d where d: "ctx_done_at ?ctx = Some d" "d \<le> hnow w + HealthCheckTimeout h" "\<And>td. ctx_done_at ctx = Some td \<Longrightarrow> d \<le> td"
    by (cases "ctx_done_at ctx") (auto simp: ctx_done_at_WithTimeout min_opt_def)
  obtain r w1 where hc: "hc ?ctx ns client ?w = (Returned r, w1)" "checks w1 = checks ?w" "hnow ?w \<le> hnow w1"
    "hnow w1 \<le> max (hnow ?w) d + int slack"
    using assms(1) d(1) unfolding ends_with_context_def by blast
  have time: "hnow w \<le> hnow w1" "hnow w1 \<le> hnow w + HealthCheckTimeout h + int slack"
    "\<And>td. ctx_done_at ctx = Some td \<Longrightarrow> hnow w1 \<le> max (hnow w) td + int slack"
    using hc(3,4) d(2) assms(2) by (auto simp: max_def dest!: d(3) split: if_splits)
  show thesis
  proof (cases r)
    case None
    with hc time show thesis by (intro that [of w1]) (simp_all add: run_check_def List.map_filter_def)
  next
    case (Some e)
    with hc time show thesis
      by (intro that [of "hadd [HLog ''Health check failed for namespace %s: %s'' [AStr ns, AErr e]] w1"])
        (simp_all add: run_check_def List.map_filter_def)
  qed
qed

text \<open>One round: the loop stops at the end of the context, or a check starts at its time or, late, at once.\<close>

lemma health_loop_round:
  assumes "ends_with_context slack hc ns client" and "0 \<le> HealthCheckTimeout h"
  obtains (stop) td where "ctx_done_at ctx = Some td"
      "health_loop (Suc fuel) h tie hc ns client ctx nextCheck w = Some (Stopped, w\<lparr>hnow := max (hnow w) td\<rparr>)"
  | (check) t w1 where "t = max (hnow w) nextCheck" "\<And>td. ctx_done_at ctx = Some td \<Longrightarrow> t \<le> max (hnow w) td"
      "health_loop (Suc fuel) h tie hc ns client ctx nextCheck w
         = health_loop fuel h tie hc ns client ctx (nextCheck + HealthCheckInterval h) w1"
      "checks w1 = checks w @ [(WithTimeout ctx t (HealthCheckTimeout h), t)]"
      "t \<le> hnow w1" "hnow w1 \<le> t + HealthCheckTimeout h + int slack"
      "\<And>td. ctx_done_at ctx = Some td \<Longrightarrow> hnow w1 \<le> max t td + int slack"
proof -
  let ?t = "max (hnow w) nextCheck"
  define stop_at where "stop_at = (case ctx_done_at ctx of None \<Rightarrow> None
      | Some td \<Rightarrow> (let t_done = max (hnow w) td in if t_done < ?t \<or> t_done = ?t \<and> tie w then Some t_done else None))"
  obtain w1 where w1: "run_check h hc ns client ctx (w\<lparr>hnow := ?t\<rparr>) = (Returned (), w1)"
    "checks w1 = checks w @ [(WithTimeout ctx ?t (HealthCheckTimeout h), ?t)]" "?t \<le> hnow w1"
    "hnow w1 \<le> ?t + HealthCheckTimeout h + int slack" "\<And>td. ctx_done_at ctx = Some td \<Longrightarrow> hnow w1 \<le> max ?t td + int slack"
    by (rule run_check_ends [OF assms, of ctx "w\<lparr>hnow := ?t\<rparr>"]) auto
  have step: "health_loop (Suc fuel) h tie hc ns client ctx nextCheck w = (case stop_at of
      Some t \<Rightarrow> Some (Stopped, w\<lparr>hnow := t\<rparr>)
    | None \<Rightarrow> health_loop fuel h tie hc ns client ctx (nextCheck + HealthCheckInterval h) w1)"
    using w1(1) by (simp only: health_loop.simps Let_def stop_at_def prod.case outcome.case)
  show thesis
  proof (cases stop_at)
    case (Some t)
    then obtain td where "ctx_done_at ctx = Some td" "t = max (hnow w) td"
      by (auto simp: stop_at_def Let_def split: option.splits if_splits)
    with Some step show thesis by (intro stop [of td]) simp_all
  next
    case None
    have "?t \<le> max (hnow w) td" if td: "ctx_done_at ctx = Some td" for td
    proof (rule ccontr)
      assume "\<not> ?t \<le> max (hnow w) td"
      then have "max (hnow w) td < ?t" by linarith
      then have "stop_at = Some (max (hnow w) td)" unfolding stop_at_def td option.case Let_def by (simp only: simp_thms if_True)
      with None show False by simp
    qed
    with None step w1 show thesis by (intro check [of ?t w1]) simp_all
  qed
qed

text \<open>
  The checks of a run: the k-th starts no earlier than k intervals after the first was due, and at most \<open>late\<close> plus k times
  \<open>x\<close> later than that, each under its own timeout.
\<close>

definition on_schedule :: "HealthCheckerOptions \<Rightarrow> Context \<Rightarrow> instant \<Rightarrow> duration \<Rightarrow> duration \<Rightarrow> (Context \<times> instant) list \<Rightarrow> bool" where
  "on_schedule h ctx t0 late x cs \<longleftrightarrow> (\<forall>k<length cs. \<exists>t. cs ! k = (WithTimeout ctx t (HealthCheckTimeout h), t)
     \<and> t0 + int k * HealthCheckInterval h \<le> t \<and> t \<le> t0 + int k * HealthCheckInterval h + late + int k * x)"

lemma on_schedule_Cons:
  assumes "on_schedule h ctx (t0 + HealthCheckInterval h) (late + x) x cs" and "t0 \<le> t" "t \<le> t0 + late"
  shows "on_schedule h ctx t0 late x ((WithTimeout ctx t (HealthCheckTimeout h), t) # cs)"
  unfolding on_schedule_def
proof (intro allI impI)
  fix k assume "k < length ((WithTimeout ctx t (HealthCheckTimeout h), t) # cs)"
  with assms show "\<exists>t'. ((WithTimeout ctx t (HealthCheckTimeout h), t) # cs) ! k = (WithTimeout ctx t' (HealthCheckTimeout h), t')
      \<and> t0 + int k * HealthCheckInterval h \<le> t' \<and> t' \<le> t0 + int k * HealthCheckInterval h + late + int k * x"
    by (cases k) (auto simp: on_schedule_def algebra_simps)
qed

text \<open>By how much a check that lasts as long as it may overruns its interval.\<close>

definition overrun :: "HealthCheckerOptions \<Rightarrow> nat \<Rightarrow> duration" where
  "overrun h slack = max 0 (HealthCheckTimeout h + int slack - HealthCheckInterval h)"

lemma health_loop_schedule:
  assumes "ends_with_context slack hc ns client" and "0 \<le> HealthCheckTimeout h"
  shows "health_loop fuel h tie hc ns client ctx nextCheck w = Some (r, w') \<Longrightarrow> hnow w \<le> nextCheck + late \<Longrightarrow> 0 \<le> late
    \<Longrightarrow> r = Stopped \<and> (\<exists>cs. checks w' = checks w @ cs \<and> on_schedule h ctx nextCheck late (overrun h slack) cs)
      \<and> (\<exists>td. ctx_done_at ctx = Some td \<and> td \<le> hnow w')"
proof (induction fuel arbitrary: nextCheck w late)
  case (Suc fuel)
  from assms show ?case
  proof (cases rule: health_loop_round [where ctx = ctx and fuel = fuel and tie = tie and nextCheck = nextCheck and w = w])
    case (stop td)
    with Suc.prems(1) show ?thesis by (auto simp: on_schedule_def intro: exI [of _ "[]"])
  next
    case (check t w1)
    have "hnow w1 \<le> nextCheck + HealthCheckInterval h + (late + overrun h slack)" "0 \<le> late + overrun h slack"
      using check(1,6) Suc.prems(2,3) by (auto simp: overrun_def)
    from Suc.IH [OF _ this] Suc.prems(1) check(3) obtain cs where cs: "r = Stopped" "checks w' = checks w1 @ cs"
      "on_schedule h ctx (nextCheck + HealthCheckInterval h) (late + overrun h slack) (overrun h slack) cs"
      "\<exists>td. ctx_done_at ctx = Some td \<and> td \<le> hnow w'" by auto
    have "on_schedule h ctx nextCheck late (overrun h slack) ((WithTimeout ctx t (HealthCheckTimeout h), t) # cs)"
      by (rule on_schedule_Cons [OF cs(3)]) (use check(1) Suc.prems(2,3) in auto)
    with cs check(4) show ?thesis by auto
  qed
qed simp


text \<open>
  How many rounds the loop has left at most: those due until the context is done, each of which may put the loop behind by \<open>slack\<close>,
  and those it takes to catch up.
\<close>

definition rounds_left :: "nat \<Rightarrow> instant \<Rightarrow> instant \<Rightarrow> instant \<Rightarrow> int" where
  "rounds_left slack td nextCheck t = max 0 (td - nextCheck + 1) * (2 + int slack) + max 0 (t - nextCheck + 1)"

lemma rounds_left_decreases:
  assumes "0 < i" and "int slack < i" and "t1 \<le> max t nextCheck + i + int slack" and "t1 \<le> max (max t nextCheck) td + int slack"
    and "nextCheck \<le> td \<or> nextCheck \<le> t"
  shows "rounds_left slack td (nextCheck + i) t1 < rounds_left slack td nextCheck t"
proof (cases "nextCheck \<le> td")
  case True
  have "max 0 (td - (nextCheck + i) + 1) \<le> td - nextCheck" using assms(1) True by linarith
  then have "max 0 (td - (nextCheck + i) + 1) * (2 + int slack) \<le> (td - nextCheck) * (2 + int slack)"
    by (rule mult_right_mono) simp
  moreover have "max 0 (td - nextCheck + 1) * (2 + int slack) = (td - nextCheck) * (2 + int slack) + (2 + int slack)"
    using True by (simp add: algebra_simps max_def)
  moreover have "max 0 (t1 - (nextCheck + i) + 1) < max 0 (t - nextCheck + 1) + (2 + int slack)"
    using assms(3) by linarith
  ultimately show ?thesis unfolding rounds_left_def by linarith
next
  case False
  then have "max 0 (td - nextCheck + 1) = 0" "max 0 (td - (nextCheck + i) + 1) = 0" using assms(1) by simp_all
  moreover from False assms have "max 0 (t1 - (nextCheck + i) + 1) < max 0 (t - nextCheck + 1)" by linarith
  ultimately show ?thesis by (simp add: rounds_left_def)
qed

lemma health_loop_enough_fuel:
  assumes "ends_with_context slack hc ns client" and "0 \<le> HealthCheckTimeout h" and "0 < HealthCheckInterval h"
    and "HealthCheckTimeout h \<le> HealthCheckInterval h" and "int slack < HealthCheckInterval h" and "ctx_done_at ctx = Some td"
  shows "rounds_left slack td nextCheck (hnow w) < int fuel \<Longrightarrow> \<exists>w'. health_loop fuel h tie hc ns client ctx nextCheck w = Some (Stopped, w')"
proof (induction fuel arbitrary: nextCheck w)
  case 0
  have "0 \<le> rounds_left slack td nextCheck (hnow w)" by (simp add: rounds_left_def)
  with 0 show ?case by simp
next
  case (Suc fuel)
  from assms(1,2) show ?case
  proof (cases rule: health_loop_round [where ctx = ctx and fuel = fuel and tie = tie and nextCheck = nextCheck and w = w])
    case (check t w1)
    have "rounds_left slack td (nextCheck + HealthCheckInterval h) (hnow w1) < rounds_left slack td nextCheck (hnow w)"
      by (rule rounds_left_decreases)
        (use assms(3-6) check(1,2,6,7) in \<open>auto simp: max_def split: if_splits\<close>)
    with Suc.prems have "rounds_left slack td (nextCheck + HealthCheckInterval h) (hnow w1) < int fuel" by linarith
    from Suc.IH [OF this] check(3) show ?thesis by simp
  qed auto
qed

lemma NewHealthChecker_bounds:
  "0 < HealthCheckTimeout (NewHealthChecker opts) \<and> HealthCheckTimeout (NewHealthChecker opts) \<le> HealthCheckInterval (NewHealthChecker opts)"
  by (auto simp: NewHealthChecker_def defaultHealthCheckInterval_def seconds_def Let_def split: option.splits)

section \<open>Lemmas: the repository's checks\<close>

text \<open>
  A client whose probes and closes end at most \<open>slack\<close> after their context is done, and which gives a link or an error: with it both checks of the
  repository end with their context.
\<close>

definition client_honours_context :: "nat \<Rightarrow> sb_client \<Rightarrow> bool" where
  "client_honours_context slack client \<longleftrightarrow> (\<forall>l ctx w d. ctx_done_at ctx = Some d
     \<longrightarrow> hnow w + int (snd (cl_Probe client l ctx w)) \<le> max (hnow w) d + int slack
       \<and> hnow w + int (snd (cl_Close client l ctx w)) \<le> max (hnow w) d + int slack)"

lemma close_link_time:
  assumes "client_honours_context slack client"
  shows "\<exists>e' w'. close_link client link ctx e w = (e', w') \<and> checks w' = checks w \<and> hnow w \<le> hnow w'
    \<and> (\<forall>d. ctx_done_at ctx = Some d \<longrightarrow> hnow w' \<le> max (hnow w) d + int slack)"
proof (cases link)
  case (Some l)
  obtain ce dl where cl: "cl_Close client l ctx w = (ce, dl)" by (cases "cl_Close client l ctx w")
  have "hnow w + int dl \<le> max (hnow w) d + int slack" if "ctx_done_at ctx = Some d" for d
    using assms that cl unfolding client_honours_context_def by (metis snd_conv)
  with Some cl show ?thesis by (cases ce) (simp_all add: close_link_def List.map_filter_def)
qed (auto simp: close_link_def)

lemma health_check_time:
  assumes "client_honours_context slack client" and "snd created = None \<longrightarrow> fst created \<noteq> None" and "\<And>e. check_of (metric e) = None"
  shows "\<exists>r w'. health_check client created metric ctx w = (Returned r, w') \<and> checks w' = checks w \<and> hnow w \<le> hnow w'
    \<and> (\<forall>d. ctx_done_at ctx = Some d \<longrightarrow> hnow w' \<le> max (hnow w) d + int (2 * slack))"
proof -
  obtain link e where created: "created = (link, e)" by (cases created)
  show ?thesis
  proof (cases e)
    case (Some e')
    obtain e1 w1 where cl: "close_link client link ctx e w = (e1, w1)" "checks w1 = checks w" "hnow w \<le> hnow w1"
      "\<And>d. ctx_done_at ctx = Some d \<Longrightarrow> hnow w1 \<le> max (hnow w) d + int slack"
      using close_link_time [OF assms(1), of link ctx e w] by blast
    with Some created assms(3) show ?thesis by (fastforce simp: health_check_def List.map_filter_def)
  next
    case None
    with assms(2) created obtain l where l: "link = Some l" by auto
    obtain pe dl where probe: "cl_Probe client l ctx w = (pe, dl)" by (cases "cl_Probe client l ctx w")
    let ?w1 = "hadd [HProbe ctx l pe] (w\<lparr>hnow := hnow w + int dl\<rparr>)"
    have first: "hnow w + int dl \<le> max (hnow w) d + int slack" if "ctx_done_at ctx = Some d" for d
      using assms(1) that probe unfolding client_honours_context_def by (metis snd_conv)
    obtain e1 w2 where cl: "close_link client link ctx pe ?w1 = (e1, w2)" "checks w2 = checks ?w1" "hnow ?w1 \<le> hnow w2"
      "\<And>d. ctx_done_at ctx = Some d \<Longrightarrow> hnow w2 \<le> max (hnow ?w1) d + int slack"
      using close_link_time [OF assms(1), of link ctx pe ?w1] by blast
    have "hnow w2 \<le> max (hnow w) d + int (2 * slack)" if "ctx_done_at ctx = Some d" for d
      using first [OF that] cl(4) [OF that] by simp
    with None l created probe cl(1-3) assms(3) show ?thesis by (simp add: health_check_def List.map_filter_def)
  qed
qed

lemma sender_check_ends:
  assumes "client_honours_context slack client" and "\<And>q. snd (cl_NewSender client q) = None \<Longrightarrow> fst (cl_NewSender client q) \<noteq> None"
  shows "ends_with_context (2 * slack) (SenderHealthChecker_HealthCheck entity) ns client"
  unfolding ends_with_context_def SenderHealthChecker_HealthCheck_def
  by (intro allI health_check_time [OF assms(1)]) (use assms(2) in \<open>auto simp: sender_incHealthCheckMetric_def\<close>)

lemma receiver_check_ends:
  assumes "client_honours_context slack client"
    and "snd (createReceiver entity subscription client) = None \<longrightarrow> fst (createReceiver entity subscription client) \<noteq> None"
  shows "ends_with_context (2 * slack) (ReceiverHealthChecker_HealthCheck entity subscription) ns client"
  unfolding ends_with_context_def ReceiverHealthChecker_HealthCheck_def
  by (intro allI health_check_time [OF assms]) (simp add: receiver_incHealthCheckMetric_def)

section \<open>Properties\<close>

text \<open>
  The options as documented: the interval is one minute unless a positive one is given, the timeout is
  the interval unless one in (0, interval] is given; so a check never gets more time than there is to the next.
\<close>

lemma health_options_documented:
  "(let h = NewHealthChecker (Some opts) in
      HealthCheckInterval h = (if HealthCheckInterval opts \<le> 0 then seconds 60 else HealthCheckInterval opts)
    \<and> HealthCheckTimeout h = (if 0 < HealthCheckTimeout opts \<and> HealthCheckTimeout opts \<le> HealthCheckInterval h
         then HealthCheckTimeout opts else HealthCheckInterval h)
    \<and> 0 < HealthCheckTimeout h \<and> HealthCheckTimeout h \<le> HealthCheckInterval h)
   \<and> NewHealthChecker None = \<lparr>HealthCheckInterval = seconds 60, HealthCheckTimeout = seconds 60\<rparr>"
  using NewHealthChecker_bounds [of "Some opts"]
  by (auto simp: NewHealthChecker_def defaultHealthCheckInterval_def seconds_def Let_def)


text \<open>
  The repository's own sender check, with a client that never answers (each probe lasts until its context is done, under the default timeout of a whole
  interval), and a context that is cancelled after two and a half minutes.
\<close>

definition hung_client :: sb_client where
  "hung_client = \<lparr>cl_NewSender = (\<lambda>_. (Some 1, None)), cl_NewReceiverForQueue = (\<lambda>_. (Some 2, None)),
     cl_NewReceiverForSubscription = (\<lambda>_ _. (Some 3, None)),
     cl_Probe = (\<lambda>_ ctx w. (ctx_Err ctx (case ctx_done_at ctx of None \<Rightarrow> hnow w | Some d \<Rightarrow> max (hnow w) d),
       case ctx_done_at ctx of None \<Rightarrow> 0 | Some d \<Rightarrow> nat (d - hnow w))),
     cl_Close = (\<lambda>_ _ _. (None, 0))\<rparr>"

abbreviation short_ctx :: Context where
  "short_ctx \<equiv> cancel_at Background (seconds 150)"

lemma hung_check_ends: "ends_with_context 0 (SenderHealthChecker_HealthCheck ''q'') ns hung_client"
proof -
  have "client_honours_context 0 hung_client" by (simp add: client_honours_context_def hung_client_def)
  from sender_check_ends [OF this] show ?thesis by (simp add: hung_client_def)
qed




text \<open>
  C33. The loops end after their context does. Hypotheses: the checks of every namespace return, at most \<open>slack\<close> nanoseconds after the context
  they were given is done; \<open>slack\<close> is less than the interval; the loops' context is done at some instant \<open>td\<close>. Then the goroutine of
  every namespace returns, whichever branch Go takes when the timer and the context are both ready, and not before \<open>td\<close>; so many rounds of fuel as stated are enough.
\<close>

theorem health_loop_stops:
  assumes "h = NewHealthChecker opts" and "list_all (\<lambda>(ns, client). ends_with_context slack hc ns client) clients"
    and "int slack < HealthCheckInterval h" and "ctx_done_at ctx = Some td"
    and "(nat (td - hnow w) + 1) * (2 + slack) + 1 < fuel"
  shows "map fst (StartPeriodicHealthCheck fuel h tie hc clients ctx w) = map fst clients
    \<and> list_all (\<lambda>(ns, res). \<exists>w'. res = Some (Stopped, w') \<and> td \<le> hnow w') (StartPeriodicHealthCheck fuel h tie hc clients ctx w)"
proof -
  from NewHealthChecker_bounds [of opts] have h: "0 \<le> HealthCheckTimeout h" "0 < HealthCheckInterval h"
    "HealthCheckTimeout h \<le> HealthCheckInterval h" unfolding assms(1) by linarith+
  have "rounds_left slack td (hnow w) (hnow w) \<le> (int (nat (td - hnow w)) + 1) * (2 + int slack) + 1"
    unfolding rounds_left_def by (intro add_mono mult_right_mono) auto
  also have "\<dots> = int ((nat (td - hnow w) + 1) * (2 + slack) + 1)"
    by (simp only: of_nat_add of_nat_mult of_nat_1 of_nat_numeral)
  also have "\<dots> < int fuel" using assms(5) by (simp only: of_nat_less_iff)
  finally have fuel: "rounds_left slack td (hnow w) (hnow w) < int fuel" .
  have "\<exists>w'. periodicHealthCheck fuel h tie hc ns client ctx w = Some (Stopped, w') \<and> td \<le> hnow w'"
    if "(ns, client) \<in> set clients" for ns client
  proof -
    from that assms(2) have ends: "ends_with_context slack hc ns client" by (auto simp: list_all_iff)
    from health_loop_enough_fuel [OF ends h assms(3,4) fuel] obtain w'
      where run: "health_loop fuel h tie hc ns client ctx (hnow w) w = Some (Stopped, w')" by blast
    with health_loop_schedule [OF ends h(1) run, of 0] assms(4) show ?thesis by (auto simp: periodicHealthCheck_def)
  qed
  then show ?thesis by (auto simp: StartPeriodicHealthCheck_def list_all_iff)
qed

theorem health_loop_stops_witness:
  "list_all (\<lambda>(ns, res). \<exists>w'. res = Some (Stopped, w') \<and> seconds 150 \<le> hnow w')
     (StartPeriodicHealthCheck ((nat (seconds 150) + 1) * 2 + 2) (NewHealthChecker None) (\<lambda>_. False) (SenderHealthChecker_HealthCheck ''q'')
       [(''a'', hung_client), (''b'', hung_client)] short_ctx \<lparr>hnow = 0, hevents = []\<rparr>)"
proof -
  have "list_all (\<lambda>(ns, client). ends_with_context 0 (SenderHealthChecker_HealthCheck ''q'') ns client)
      [(''a'', hung_client), (''b'', hung_client)]"
    by (simp add: hung_check_ends)
  moreover have "ctx_done_at short_ctx = Some (seconds 150)"
    by (simp add: ctx_done_at_def cancel_at_def Background_def min_opt_def)
  moreover have "int 0 < HealthCheckInterval (NewHealthChecker None)"
    using NewHealthChecker_bounds [of None] by simp
  ultimately show ?thesis
    using health_loop_stops [OF refl, of 0 "SenderHealthChecker_HealthCheck ''q''" _ None short_ctx "seconds 150"
        "\<lparr>hnow = 0, hevents = []\<rparr>" "(nat (seconds 150) + 1) * 2 + 2" "\<lambda>_. False"] by simp
qed

lemmas metric_choice = sender_incHealthCheckMetric_def receiver_incHealthCheckMetric_def

text \<open>
  C32. A health check records exactly one metric, at its end: a failure when creating, probing or closing the link
  failed, a success otherwise; and it closes the link exactly when it got one. Its result is the error of creating or
  probing alone: an error of closing is counted as failure but not returned.
\<close>

theorem health_check_counts_once:
  assumes "created = (link, e)" and "e = None \<longrightarrow> link \<noteq> None"
  shows "\<exists>res w1 closeErr. health_check client created metric ctx w = (Returned res, hadd [metric (case closeErr of None \<Rightarrow> res | Some ce \<Rightarrow> Some ce)] w1)
    \<and> (e \<noteq> None \<longrightarrow> res = e)
    \<and> (\<exists>es. hevents w1 = hevents w @ es
        \<and> (\<forall>l. link = Some l \<longrightarrow> HClose ctx l closeErr \<in> set es)
        \<and> (link = None \<longrightarrow> es = [] \<and> closeErr = None)
        \<and> (\<forall>l. e = None \<and> link = Some l \<longrightarrow> HProbe ctx l res \<in> set es)
        \<and> (\<forall>m. HSenderMetric m \<notin> set es) \<and> (\<forall>m. HReceiverMetric m \<notin> set es))
    \<and> (\<forall>entity ns. metric = sender_incHealthCheckMetric entity ns
        \<longrightarrow> metric (case closeErr of None \<Rightarrow> res | Some ce \<Rightarrow> Some ce) = HSenderMetric
              (if res = None \<and> closeErr = None then IncSenderHealthCheckSuccessCount ns entity else IncSenderHealthCheckFailureCount ns entity))
    \<and> (\<forall>entity subscription ns. metric = receiver_incHealthCheckMetric entity subscription ns
        \<longrightarrow> metric (case closeErr of None \<Rightarrow> res | Some ce \<Rightarrow> Some ce) = HReceiverMetric
              (if res = None \<and> closeErr = None then IncHealthCheckSuccessCount ns entity subscription
               else IncHealthCheckFailureCount ns entity subscription))"
proof (cases link)
  case None
  with assms show ?thesis
    by (intro exI [of _ e] exI [of _ w] exI [of _ None]) (auto simp: health_check_def close_link_def metric_choice)
next
  case (Some l)
  show ?thesis
  proof (cases e)
    case None
    obtain pe d where probe: "cl_Probe client l ctx w = (pe, d)" by (cases "cl_Probe client l ctx w")
    let ?w1 = "hadd [HProbe ctx l pe] (w\<lparr>hnow := hnow w + int d\<rparr>)"
    obtain ce d' where cl: "cl_Close client l ctx ?w1 = (ce, d')" by (cases "cl_Close client l ctx ?w1")
    from assms Some None probe cl show ?thesis
      by (intro exI [of _ pe] exI [of _ "snd (close_link client link ctx pe ?w1)"] exI [of _ ce])
        (cases ce; auto simp: health_check_def close_link_def hadd_def Let_def metric_choice)
  next
    case e: (Some e')
    obtain ce d' where cl: "cl_Close client l ctx w = (ce, d')" by (cases "cl_Close client l ctx w")
    from assms Some e cl show ?thesis
      by (intro exI [of _ e] exI [of _ "snd (close_link client link ctx e w)"] exI [of _ ce])
        (cases ce; auto simp: health_check_def close_link_def hadd_def Let_def metric_choice)
  qed
qed

text \<open>A client whose links cannot be closed.\<close>

abbreviation some_client :: sb_client where
  "some_client \<equiv> \<lparr>cl_NewSender = (\<lambda>_. (Some 1, None)), cl_NewReceiverForQueue = (\<lambda>_. (Some 2, None)),
     cl_NewReceiverForSubscription = (\<lambda>_ _. (Some 3, None)), cl_Probe = (\<lambda>_ _ _. (None, 1)),
     cl_Close = (\<lambda>_ _ _. (Some (OtherError 1), 1))\<rparr>"

theorem health_check_counts_once_witness:
  "\<exists>w'. SenderHealthChecker_HealthCheck ''q'' Background ''ns'' some_client \<lparr>hnow = 0, hevents = []\<rparr> = (Returned None, w')
     \<and> last (hevents w') = HSenderMetric (IncSenderHealthCheckFailureCount ''ns'' ''q'')"
proof -
  have "\<exists>w'. SenderHealthChecker_HealthCheck ''q'' Background ''ns'' some_client \<lparr>hnow = 0, hevents = []\<rparr> = (Returned None, w')
     \<and> last (hevents w') = HSenderMetric (IncSenderHealthCheckFailureCount ''ns'' ''q'')"
    by (simp add: SenderHealthChecker_HealthCheck_def health_check_def close_link_def sender_incHealthCheckMetric_def hadd_def)
  with health_check_counts_once [of "(Some 1, None)" "Some 1" None some_client
      "sender_incHealthCheckMetric ''q'' ''ns''" Background "\<lparr>hnow = 0, hevents = []\<rparr>"]
  show ?thesis by simp
qed

end
