(* ===== verification/Logging.thy ===== *)
theory Logging
  imports Runtime
begin

text \<open>
  \<^verbatim>\<open>v2/logging.go\<close>: the package variable \<open>getLogger\<close>, the two functions that replace it, and the logger that adds the
  context to \<open>slog\<close>. Handlers and user supplied logger functions are identified by numbers; the process-wide default of
  package \<open>log/slog\<close>, which the application may change at any time, is part of the state.
\<close>

text \<open>What \<open>getLogger\<close> does: read the \<open>slog\<close> default at each call (the initial value), use a fixed handler, call a user's function.\<close>

datatype logger_source = AtCallDefault | FixedHandler nat | UserFunc nat

record log_state =
  getLogger_src :: logger_source
  slog_Default :: nat

datatype Logger = contextLogger Context nat | UserLogger nat Context

definition getLogger :: "log_state \<Rightarrow> Context \<Rightarrow> Logger" where
  "getLogger st ctx = (case getLogger_src st of
     AtCallDefault \<Rightarrow> contextLogger ctx (slog_Default st)
   | FixedHandler h \<Rightarrow> contextLogger ctx h
   | UserFunc f \<Rightarrow> UserLogger f ctx)"

definition SetLoggerFunc :: "nat \<Rightarrow> log_state \<Rightarrow> log_state" where
  "SetLoggerFunc fn st = st\<lparr>getLogger_src := UserFunc fn\<rparr>"

definition SetLogHandler :: "nat option \<Rightarrow> log_state \<Rightarrow> log_state" where
  "SetLogHandler handler st =
     (let handler = (case handler of None \<Rightarrow> slog_Default st | Some h \<Rightarrow> h) in st\<lparr>getLogger_src := FixedHandler handler\<rparr>)"

text \<open>A line as a handler receives it: the handler, the context, the level and the text.\<close>

fun log_line :: "Logger \<Rightarrow> log_level \<Rightarrow> string \<Rightarrow> nat option \<times> Context \<times> log_level \<times> string" where
  "log_line (contextLogger ctx h) l s = (Some h, ctx, l, s)"
| "log_line (UserLogger f ctx) l s = (None, ctx, l, s)"

text \<open>What else may happen between two log calls.\<close>

datatype log_action = SetFunc nat | SetHandler "nat option" | SlogSetDefault nat

fun log_step :: "log_action \<Rightarrow> log_state \<Rightarrow> log_state" where
  "log_step (SetFunc f) st = SetLoggerFunc f st"
| "log_step (SetHandler h) st = SetLogHandler h st"
| "log_step (SlogSetDefault d) st = st\<lparr>slog_Default := d\<rparr>"

lemma later_defaults_ignored:
  assumes "getLogger_src st = FixedHandler h" and "list_all (\<lambda>a. \<exists>d. a = SlogSetDefault d) as"
  shows "getLogger_src (fold log_step as st) = FixedHandler h"
  using assms by (induction as arbitrary: st) auto

text \<open>
  After \<open>SetLogHandler\<close> every line goes, with its context, to the handler that was set; with a nil handler that is the \<open>slog\<close>
  default of that moment, whatever default the application sets later, whereas before any call of \<open>SetLogHandler\<close> the lines follow the
  current default.
\<close>

lemma log_handler_is_fixed:
  assumes "list_all (\<lambda>a. \<exists>d. a = SlogSetDefault d) as"
  shows "log_line (getLogger (fold log_step as (SetLogHandler handler st)) ctx) l s
      = (Some (case handler of None \<Rightarrow> slog_Default st | Some h \<Rightarrow> h), ctx, l, s)
    \<and> log_line (getLogger \<lparr>getLogger_src = AtCallDefault, slog_Default = d\<rparr> ctx) l s = (Some d, ctx, l, s)"
proof -
  have "getLogger_src (SetLogHandler handler st) = FixedHandler (case handler of None \<Rightarrow> slog_Default st | Some h \<Rightarrow> h)"
    by (simp add: SetLogHandler_def)
  from later_defaults_ignored [OF this assms] show ?thesis by (simp add: getLogger_def)
qed

end
