(* ===== verification/Spec2Isabelle.thy ===== *)
theory Spec2Isabelle
  imports WorkerPool ManagedSettling RenewalRuns Tracing SenderLock Health Logging
begin

text \<open>
  A verification development for go-shuttle (\<^verbatim>\<open>src/v2\<close>), a Go library around the Azure Service Bus client: a message
  pump with bounded concurrency, middleware that settles messages, renews their locks, recovers panics and continues
  traces, a sender with batching and failover, health checks and metrics.

  \<^bold>\<open>How the parts fit.\<close> The processor receives messages and runs one goroutine per message, which calls a
  handler. Handlers are stacked: panic handler, tracing handler, lock renewer, managed settling or settlement handler, application. They
  settle messages through the receiver and record metrics. On the other side a sender marshals bodies, adds properties (the
  type, the trace context) and sends messages or batches. Health checkers probe both kinds of link.

  \<^bold>\<open>Common ground.\<close> \<open>Prelude\<close>: Go errors (\<open>errors.Is/As/Join\<close>, wrapping), code that may panic as a state-passing
  function (\<open>proc\<close>, with \<open>defer\<close> and \<open>recover\<close>), runs and reachable states of a step function, and the locale
  \<open>step_invariant\<close>, which every concurrent component interprets on its own step function. \<open>Runtime\<close>: time (integers, in
  nanoseconds), contexts as what can be observed of them (deadline, cancellation instant, span), received messages, the calls to the
  broker, hooks, recorder, tracer and logger as events, and the world (clock and trace) of sequential code.

  \<^bold>\<open>Components.\<close>
  \<^item> \<open>Handlers\<close> (\<^verbatim>\<open>processor.go\<close>: \<open>Handler\<close>, \<open>NewPanicHandler\<close>). The locales \<open>settling_handler\<close> (settles at most once, on every path) and
    \<open>contained_handler\<close> (and never panics); the panic handler turns the first into the second.
  \<^item> \<open>Settlement\<close> (\<^verbatim>\<open>settlehandler.go\<close>) and \<open>ManagedSettling\<close> (\<^verbatim>\<open>managedsettling.go\<close>, \<^verbatim>\<open>utils.go\<close>): every settlement, hook, option and
    error branch; which one settlement and which hook follow from what the application returned. Both interpret \<open>settling_handler\<close>.
  \<^item> \<open>Processor\<close> (\<^verbatim>\<open>processor.go\<close>: options, \<open>Start\<close>, \<open>startWithRetries\<close>, \<open>start\<close>, \<open>process\<close>): a step function whose actions are the
    next step of the pump or of a goroutine, or an answer of the environment. A program point is a constructor of \<open>pump_pc\<close> or
    \<open>gpc\<close>. \<open>ProcessorRuns\<close> proves bounded concurrency, that no message is lost or handled twice, bounds on receive requests, that
    with a receiver that respects its limit only the initial dispatch of a later start attempt can have to wait, the result of \<open>Start\<close>, absence of deadlock, termination after the context
    is done, and that metric calls agree with the goroutines. \<open>WorkerPool\<close> gives an abstract bounded pool and the refinement.
  \<^item> \<open>LockRenewer\<close> (\<^verbatim>\<open>lockrenewer.go\<close>): the options, \<open>renewMessageLock\<close>, and a step function of the handler and the renewal goroutine that share
    \<open>alive\<close>, the channel \<open>stopped\<close> and the context; \<open>stop\<close> is split at each access to shared state. \<open>RenewalRuns\<close>: the stop signal is
    not lost, nothing is renewed after a stop of a started goroutine, a lost lock ends the renewing (and the message context, when the
    option says so), counters; \<open>stop\<close> can only be held up by the
    goroutine's own \<open>stop\<close>, and there is a schedule on which it is held up for ever.
  \<^item> \<open>Marshaller\<close> (\<^verbatim>\<open>marshaller.go\<close>): outgoing messages, both marshallers, and the locale \<open>marshaller\<close> that both interpret.
  \<^item> \<open>Otel\<close> (\<^verbatim>\<open>otel/otel.go\<close>): messages as trace carriers (locale \<open>text_map_carrier\<close>, interpreted for both message types), \<open>Inject\<close>,
    \<open>Extract\<close>, and the round trip between them. \<open>Tracing\<close> (\<^verbatim>\<open>tracing.go\<close>): the tracing handler and its options.
  \<^item> \<open>Metrics\<close> (\<^verbatim>\<open>metrics/\<close>): registries, recorders, informers, registration; informers read back what was recorded.
  \<^item> \<open>Sender\<close> (\<^verbatim>\<open>sender.go\<close>): \<open>NewSender\<close>, \<open>ToServiceBusMessage\<close> with all options, \<open>SendMessage\<close>, \<open>SendAsBatch\<close>. \<open>SenderLock\<close>: the
    \<open>RWMutex\<close> around the underlying sender with concurrent operations and \<open>SetAzSender\<close>, goroutines and result channels included.
  \<^item> \<open>Health\<close> (\<^verbatim>\<open>health.go\<close>): options, the periodic loop, both checks. \<open>Logging\<close> (\<^verbatim>\<open>logging.go\<close>): which handler a line reaches.

  This theory holds the properties that span components: the whole middleware stack, the gauge in the registry against the
  goroutines of the processor, and the message type on its way from the sender to the receiver's metrics.

  \<^bold>\<open>Parameters.\<close> Code outside the repository is an argument of the definitions that use it: the broker (\<open>settler\<close>, \<open>relock\<close>, \<open>az_sender\<close>,
  \<open>sb_client\<close>), application code (\<open>app\<close>, hooks, options), encoders and decoders, the trace propagator (\<open>injector\<close>, and \<open>extractor\<close> as a program that asks for
  keys), the tracer (\<open>new_span\<close>), the Prometheus vectors (\<open>vec_api\<close>). What is relied on is a named hypothesis: \<open>timeouts_take_time\<close>,
  \<open>failure_keeps_lock\<close> and \<open>honours_context\<close> (lock renewal calls end with their context, up to a slack), \<open>batch_laws\<close>, \<open>vec_laws\<close>, \<open>spares_type\<close>,
  \<open>ends_with_context\<close> (health checks likewise; proved of the repository's own checks from \<open>client_honours_context\<close>); each is met by a concrete function in a witness. Where Go's
  \<open>select\<close> has two ready branches, an argument or the choice of action decides.

  \<^bold>\<open>Fuel.\<close> Three loops may run on: \<open>renew_loop\<close> (enough: one round per nanosecond left on the lock, since a timed-out call takes time),
  \<open>batch_loop\<close> (two rounds per message) and \<open>health_loop\<close> (rounds until the context is done, and those it takes to catch up after late checks). Running out of fuel is
  \<open>None\<close>, never a result; for each there is a theorem that this much fuel gives a result.

  \<^bold>\<open>Not modelled.\<close> The text of log lines and errors beyond format and arguments, cancellation of contexts that nobody observes any more,
  the memory model below single accesses to atomics, channels and mutexes, \<open>float64\<close> rounding of counters, time passing between two statements
  without a call, the test suites. One processor is started once: a second concurrent \<open>Start\<close> on the same token channel is left out. Retry
  strategies (\<open>CanRetry\<close>, \<open>GetDelay\<close>) are total functions: application code there that panics or takes time is left out. In
  \<open>SenderLock\<close> a caller may order its calls freely, which includes the orders of \<open>SendMessage\<close> and \<open>SendAsBatch\<close>.
\<close>

section \<open>The middleware stack\<close>

text \<open>The stack the library is used with: panic handler, tracing, managed settling, application.\<close>

interpretation traced: settling_handler
  "NewTracingHandler ext new_span
     (ManagedSettler_Handle \<lparr>ms_next = hdl, ms_options = \<lparr>opt_config = cfg, OnError = handleError\<rparr>\<rparr>) topts"
  for ext new_span hdl cfg topts
  by (rule settling_handler.tracing_handler_settling [OF managed.settling_handler_axioms])

interpretation stack: contained_handler
  "NewPanicHandler None (NewTracingHandler ext new_span
     (ManagedSettler_Handle \<lparr>ms_next = hdl, ms_options = \<lparr>opt_config = cfg, OnError = handleError\<rparr>\<rparr>) topts)"
  for ext new_span hdl cfg topts
  by (rule traced.panic_handler_contained)

text \<open>
  C16. The whole middleware stack, panic handler around tracing around managed settling, with any application handler, hooks,
  options, broker and incoming message, never lets a panic out and settles the message at most once.
\<close>

theorem stack_contains_panics_and_settles_once:
  "\<exists>w' es. NewPanicHandler None (NewTracingHandler ext new_span
       (ManagedSettler_Handle \<lparr>ms_next = hdl, ms_options = \<lparr>opt_config = cfg, OnError = handleError\<rparr>\<rparr>) topts) ctx S m w = (Returned (), w')
     \<and> events w' = events w @ es \<and> now w \<le> now w' \<and> length (filter is_final (settlements es)) \<le> 1"
proof -
  obtain w' where run: "NewPanicHandler None (NewTracingHandler ext new_span
       (ManagedSettler_Handle \<lparr>ms_next = hdl, ms_options = \<lparr>opt_config = cfg, OnError = handleError\<rparr>\<rparr>) topts) ctx S m w = (Returned (), w')"
    using stack.never_panics by blast
  then obtain es where "events w' = events w @ es" "now w \<le> now w'" "length (filter is_final (settlements es)) \<le> 1"
    by (rule stack.new_settlements)
  with run show ?thesis by blast
qed

section \<open>Metrics of the processor\<close>

lemma gauge_change_sum:
  "(\<Sum>c\<leftarrow>cs. gauge_change P c) = int (length (filter (inc_of P) cs)) - int (length (filter (dec_of P) cs))"
proof (induction cs)
  case (Cons c cs)
  then show ?case by (cases c) auto
qed simp

text \<open>
  C27. The concurrency gauge read from the registry is right at every moment: with the recorder calls of any run of the processor applied to
  a fresh registry, the gauge of a message type shows the goroutines handling messages of that type that have begun and not finished.
\<close>

theorem concurrency_gauge_shows_goroutines:
  assumes "vec_laws api" and "gauge api ty r0 = 0" and "reachable (pstep opts) init_pstate s"
  shows "gauge api ty (record_all api render (metrics (ptrace s)) r0)
    = int (goroutines (\<lambda>g. started g \<and> \<not> finished g) (\<lambda>m. message_type render m = ty) s)"
  using gauge_goroutines [OF assms(3), of "\<lambda>m. message_type render m = ty"] assms(2)
  by (simp add: record_all_effect [OF assms(1)] gauge_change_sum calls_def)

theorem concurrency_gauge_shows_goroutines_witness:
  "\<exists>s. run (pstep (applyProcessorOptions None)) busy_run init_pstate = Some s
     \<and> gauge log_vec ''%!s(<nil>)'' (record_all log_vec (\<lambda>_. []) (metrics (ptrace s)) (NewRegistry (\<lambda>_. []))) = 1"
proof -
  obtain s where s: "run (pstep (applyProcessorOptions None)) busy_run init_pstate = Some s"
    "Processor.gos s = [(sample_message, GHandling)]"
    by (rule busy_run_state)
  have "gauge log_vec ''%!s(<nil>)'' (NewRegistry (\<lambda>_. [])) = 0"
    by (simp add: gauge_def Collect_total_def log_vec_def NewRegistry_def)
  from concurrency_gauge_shows_goroutines [OF log_vec_laws this run_reachable [OF s(1)], of "\<lambda>_. []"] s show ?thesis
    by (simp add: goroutines_def message_type_def sample_message_def)
qed

section \<open>From the sender to the metrics of the receiver\<close>

text \<open>
  C26. The type of a message survives the bus: a body sent with a default marshaller and the repository's own options, once received with
  the properties it was sent with, is counted by the processor's metrics under the name of the body's type.
\<close>

theorem message_type_reaches_metrics:
  assumes "ToServiceBusMessage d pgt ctx mb options t = Returned (Inr msg)" and "getMessageType mb = Returned ty"
    and "list_all (builtin_option pgt) options" and "spares_type pgt"
    and "ApplicationProperties m = AppProperties msg"
  shows "getMessageTypeLabel render m = [(messageTypeLabel, ty)]"
proof -
  let ?opts = "if cfg_propagate d then options @ [WithTracePropagation pgt ctx] else options"
  obtain msg0 where run: "run_options ?opts t (msg0\<lparr>AppProperties := Some [msgTypeField \<mapsto> PStr ty]\<rparr>) = Returned (Inr msg)"
    using assms(1,2) by (auto simp: ToServiceBusMessage_def Let_def split: outcome.splits sum.splits option.splits if_splits)
  have "list_all (builtin_option pgt) ?opts" using assms(3) by (auto intro: builtin_option.intros)
  from run_builtin_options [OF this assms(4), of t "msg0\<lparr>AppProperties := Some [msgTypeField \<mapsto> PStr ty]\<rparr>"] run
  have "same_payload (msg0\<lparr>AppProperties := Some [msgTypeField \<mapsto> PStr ty]\<rparr>) msg" by auto
  then have "type_prop msg = Some (PStr ty)" by (simp add: same_payload_def type_prop_def)
  with assms(5) show ?thesis
    by (auto simp: getMessageTypeLabel_def message_type_def type_prop_def msgTypeField_def split: option.splits)
qed

theorem message_type_reaches_metrics_witness:
  "\<exists>msg. ToServiceBusMessage default_sender unary_injector Background (PointerBody ''Order'' 1) [SetTo ''q''] 0 = Returned (Inr msg)
     \<and> getMessageTypeLabel (\<lambda>_. []) (sample_message\<lparr>ApplicationProperties := AppProperties msg\<rparr>) = [(messageTypeLabel, ''Order'')]"
proof -
  obtain msg where msg: "ToServiceBusMessage default_sender unary_injector Background (PointerBody ''Order'' 1) [SetTo ''q''] 0 = Returned (Inr msg)"
    by (simp add: ToServiceBusMessage_def NewSender_def DefaultJSONMarshaller_def json_Marshal_def SetTo_def)
  have "spares_type unary_injector"
    by (auto simp: spares_type_def unary_injector_def msgTypeField_def split: option.splits)
  with message_type_reaches_metrics [OF msg, of "''Order''" "sample_message\<lparr>ApplicationProperties := AppProperties msg\<rparr>" "\<lambda>_. []"] msg
  show ?thesis by (simp add: builtin_option.intros)
qed

end
